theory Spec2Isabelle
  imports Complex_Main "HOL-Library.AList" "HOL-Library.Multiset"
begin

section \<open>Data model\<close>

text \<open>
  The notebook \<^verbatim>\<open>plot.ipynb\<close> works on JSON values decoded into Python dictionaries.
  A dictionary is modelled as an association list in insertion order; a decoded JSON
  object has pairwise distinct keys, and on such lists \<^const>\<open>map_of\<close> is the lookup
  \<^verbatim>\<open>d[k]\<close> and \<^const>\<open>AList.update\<close> is the assignment \<^verbatim>\<open>d[k] = v\<close> (an existing key keeps its
  place, a new key goes to the end).

  Allele counts are Python integers (\<^typ>\<open>int\<close>). The true division \<^verbatim>\<open>a / b\<close> of two
  integers is modelled as exact division on \<^typ>\<open>real\<close>, with its two errors written out:
  the \<^verbatim>\<open>ZeroDivisionError\<close> of a zero divisor, and the \<^verbatim>\<open>OverflowError\<close> of a quotient too large
  for a float. The rounding of a quotient that is in range is not modelled.
\<close>

datatype py_error =
    DownloadError int string  \<comment> \<open>\<^verbatim>\<open>Exception("Unable to download data", status_code, content)\<close>\<close>
  | MetadataError             \<comment> \<open>\<^verbatim>\<open>Exception("Can't download metadata")\<close>\<close>
  | JSONDecodeError           \<comment> \<open>\<^verbatim>\<open>resp.json()\<close> on a body that is not JSON\<close>
  | KeyError string           \<comment> \<open>\<^verbatim>\<open>d[k]\<close> with \<^verbatim>\<open>k\<close> absent\<close>
  | ValueError                \<comment> \<open>a failed unpacking \<^verbatim>\<open>l, s = ...\<close> or a failed \<^verbatim>\<open>int(s)\<close>\<close>
  | IndexError                \<comment> \<open>\<^verbatim>\<open>xs[0]\<close> on an empty list\<close>
  | ZeroDivisionError
  | OverflowError             \<comment> \<open>\<^verbatim>\<open>a / b\<close> with a quotient too large for a float\<close>

type_synonym ('k, 'v) dict = "('k \<times> 'v) list"

text \<open>
  The quotient of two integers is rounded to the nearest float, ties to even. The largest
  float is \<open>2 ^ 1024 - 2 ^ 971\<close>, so a quotient rounds beyond it, and the division raises
  \<^verbatim>\<open>OverflowError\<close>, exactly when its absolute value is at least \<open>2 ^ 1024 - 2 ^ 970\<close>.
\<close>

definition float_overflow :: int where
  "float_overflow = 2 ^ 1024 - 2 ^ 970"

definition py_truediv :: "int \<Rightarrow> int \<Rightarrow> py_error + real" where
  "py_truediv a b =
     (if b = 0 then Inl ZeroDivisionError
      else if float_overflow * \<bar>b\<bar> \<le> \<bar>a\<bar> then Inl OverflowError
      else Inr (real_of_int a / real_of_int b))"

text \<open>
  A variant record holds, under \<^verbatim>\<open>'counts'\<close>, one block per project; a block holds, under
  \<^verbatim>\<open>'allele_counts'\<close>, one allele-count dictionary per population (biosample id).
\<close>

record project_block =
  allele_counts :: "(string, (string, int) dict) dict"

record variant_record =
  counts :: "(string, project_block) dict"

section \<open>Minor allele frequency: \<^verbatim>\<open>maf\<close>\<close>

text \<open>
  The body of the inner loop of \<^verbatim>\<open>maf\<close> for one population: the counts sorted in
  descending order, 0 for at most one allele, else the second count over the total when
  the total is positive, else 0.
\<close>

definition maf_population :: "(string, int) dict \<Rightarrow> py_error + real" where
  "maf_population ac =
     (let cs = rev (sort (map snd ac)) in
      if length cs \<le> 1 then Inr 0
      else let total = sum_list cs in
        if total > 0 then py_truediv (cs ! 1) total else Inr 0)"

text \<open>The inner loop, over the populations of one project block.\<close>

fun maf_populations ::
  "(string, real) dict \<Rightarrow> (string, (string, int) dict) dict \<Rightarrow> py_error + (string, real) dict"
where
  "maf_populations maf [] = Inr maf"
| "maf_populations maf ((population, ac) # rest) =
     (case maf_population ac of
        Inl e \<Rightarrow> Inl e
      | Inr v \<Rightarrow> maf_populations (AList.update population v maf) rest)"

text \<open>The outer loop, over the project blocks of the record.\<close>

fun maf_projects ::
  "(string, real) dict \<Rightarrow> (string, project_block) dict \<Rightarrow> py_error + (string, real) dict"
where
  "maf_projects maf [] = Inr maf"
| "maf_projects maf ((project, block) # rest) =
     (case maf_populations maf (allele_counts block) of
        Inl e \<Rightarrow> Inl e
      | Inr maf' \<Rightarrow> maf_projects maf' rest)"

definition maf :: "variant_record \<Rightarrow> py_error + (string, real) dict" where
  "maf record = maf_projects [] (counts record)"

subsection \<open>Notions of the specification\<close>

text \<open>
  The second-largest count of a list of counts, with multiplicity: the largest element
  of what is left once one occurrence of the maximum is removed.
\<close>

definition second_largest :: "int list \<Rightarrow> int" where
  "second_largest xs = Max (set (remove1 (Max (set xs)) xs))"

text \<open>
  All (population, allele counts) entries of a record in the order in which the two
  loops visit them, and the entry visited last for a population: the same population
  may occur under several projects, and the last one decides.
\<close>

definition population_entries :: "variant_record \<Rightarrow> (string, (string, int) dict) dict" where
  "population_entries record =
     concat (map (\<lambda>(project, block). allele_counts block) (counts record))"

definition last_allele_counts :: "variant_record \<Rightarrow> string \<Rightarrow> (string, int) dict option" where
  "last_allele_counts record population = map_of (rev (population_entries record)) population"

text \<open>
  The invariant of the data model that every count is at least 0: for one allele-count
  dictionary, for all those of a record, and (further down) for all records of a dataset.
\<close>

definition nonneg_alleles :: "(string, int) dict \<Rightarrow> bool" where
  "nonneg_alleles ac = list_all (\<lambda>(allele, c). 0 \<le> c) ac"

definition nonneg_counts :: "variant_record \<Rightarrow> bool" where
  "nonneg_counts record =
     list_all (\<lambda>(population, ac). list_all (\<lambda>(allele, c). 0 \<le> c) ac) (population_entries record)"

text \<open>The number that the body of the inner loop assigns to a population.\<close>

definition maf_value :: "(string, int) dict \<Rightarrow> real" where
  "maf_value ac =
     (if length ac \<le> 1 \<or> sum_list (map snd ac) \<le> 0 then 0
      else real_of_int (rev (sort (map snd ac)) ! 1) / real_of_int (sum_list (map snd ac)))"

section \<open>Cross frequency of two populations: \<^verbatim>\<open>cross_frequency\<close>\<close>

text \<open>
  The local variables of \<^verbatim>\<open>cross_frequency\<close>. The function returns \<^verbatim>\<open>res_x\<close> and \<^verbatim>\<open>res_y\<close> and
  prints the two counters to the error stream; the model returns all four.
\<close>

record cf_state =
  res_x :: "(string, real list) dict"
  res_y :: "(string, real list) dict"
  records_missing_pop_data :: int
  total_records :: int

text \<open>The subscript \<^verbatim>\<open>d[k]\<close> of a dictionary with string keys.\<close>

definition getitem :: "(string, 'v) dict \<Rightarrow> string \<Rightarrow> py_error + 'v" where
  "getitem d k = (case map_of d k of None \<Rightarrow> Inl (KeyError k) | Some v \<Rightarrow> Inr v)"

text \<open>\<^verbatim>\<open>d[k].append(v)\<close> on a \<^verbatim>\<open>defaultdict(list)\<close>: an absent key starts from the empty list.\<close>

definition dd_append :: "string \<Rightarrow> 'v \<Rightarrow> (string, 'v list) dict \<Rightarrow> (string, 'v list) dict" where
  "dd_append k v d = AList.update k ((case map_of d k of None \<Rightarrow> [] | Some vs \<Rightarrow> vs) @ [v]) d"

text \<open>The local function \<^verbatim>\<open>_pop_freq\<close>: its loop, then the function.\<close>

fun pop_freq_alleles ::
  "int \<Rightarrow> (string, real) dict \<Rightarrow> (string, int) dict \<Rightarrow> py_error + (string, real) dict"
where
  "pop_freq_alleles tot r [] = Inr r"
| "pop_freq_alleles tot r ((allele, allele_count) # rest) =
     (case py_truediv allele_count tot of
        Inl e \<Rightarrow> Inl e
      | Inr f \<Rightarrow> pop_freq_alleles tot (AList.update allele f r) rest)"

definition pop_freq :: "(string, int) dict \<Rightarrow> py_error + (string, real) dict option" where
  "pop_freq p =
     (let total = sum_list (map snd p) in
      if total = 0 then Inr None
      else case pop_freq_alleles total [] p of
             Inl e \<Rightarrow> Inl e
           | Inr r \<Rightarrow> Inr (Some r))"

text \<open>The last loop of the block body: the alleles of \<^verbatim>\<open>pfx\<close> that \<^verbatim>\<open>pfy\<close> has too.\<close>

fun cf_alleles :: "(string, real) dict \<Rightarrow> cf_state \<Rightarrow> (string, real) dict \<Rightarrow> cf_state" where
  "cf_alleles pfy st [] = st"
| "cf_alleles pfy st ((a, fx) # rest) =
     (case map_of pfy a of
        None \<Rightarrow> cf_alleles pfy st rest
      | Some fy \<Rightarrow>
          cf_alleles pfy
            (st\<lparr>res_x := dd_append a fx (res_x st), res_y := dd_append a fy (res_y st)\<rparr>) rest)"

text \<open>The body of the loop over the project blocks of a record.\<close>

definition cf_block :: "string \<Rightarrow> string \<Rightarrow> cf_state \<Rightarrow> project_block \<Rightarrow> py_error + cf_state" where
  "cf_block pop_id_x pop_id_y st block =
     (case getitem (allele_counts block) pop_id_x of
        Inl e \<Rightarrow> Inl e
      | Inr px \<Rightarrow>
     (case getitem (allele_counts block) pop_id_y of
        Inl e \<Rightarrow> Inl e
      | Inr py \<Rightarrow>
     (case pop_freq px of
        Inl e \<Rightarrow> Inl e
      | Inr pfx \<Rightarrow>
     (case pop_freq py of
        Inl e \<Rightarrow> Inl e
      | Inr pfy \<Rightarrow>
     (case (pfx, pfy) of
        (Some fx, Some fy) \<Rightarrow> Inr (cf_alleles fy st fx)
      | _ \<Rightarrow> Inr (st\<lparr>records_missing_pop_data := records_missing_pop_data st + 1\<rparr>))))))"

fun cf_blocks ::
  "string \<Rightarrow> string \<Rightarrow> cf_state \<Rightarrow> (string, project_block) dict \<Rightarrow> py_error + cf_state"
where
  "cf_blocks pop_id_x pop_id_y st [] = Inr st"
| "cf_blocks pop_id_x pop_id_y st ((project, block) # rest) =
     (case cf_block pop_id_x pop_id_y st block of
        Inl e \<Rightarrow> Inl e
      | Inr st' \<Rightarrow> cf_blocks pop_id_x pop_id_y st' rest)"

fun cf_records ::
  "string \<Rightarrow> string \<Rightarrow> cf_state \<Rightarrow> (string, variant_record) dict \<Rightarrow> py_error + cf_state"
where
  "cf_records pop_id_x pop_id_y st [] = Inr st"
| "cf_records pop_id_x pop_id_y st ((key, record) # rest) =
     (case cf_blocks pop_id_x pop_id_y
             (st\<lparr>total_records := total_records st + 1\<rparr>) (counts record) of
        Inl e \<Rightarrow> Inl e
      | Inr st' \<Rightarrow> cf_records pop_id_x pop_id_y st' rest)"

definition cross_frequency ::
  "(string, variant_record) dict \<Rightarrow> string \<Rightarrow> string \<Rightarrow> py_error + cf_state"
where
  "cross_frequency data pop_id_x pop_id_y =
     cf_records pop_id_x pop_id_y
       \<lparr>res_x = [], res_y = [], records_missing_pop_data = 0, total_records = 0\<rparr> data"

subsection \<open>Notions of the specification\<close>

text \<open>
  The project blocks of a dataset in the order of the two loops, the datasets all of whose
  counts are at least 0, the blocks that have both populations, and the blocks in which
  one of the two populations has a total allele count of 0.
\<close>

definition all_blocks :: "(string, variant_record) dict \<Rightarrow> project_block list" where
  "all_blocks data = concat (map (\<lambda>(key, record). map snd (counts record)) data)"

definition nonneg_dataset :: "(string, variant_record) dict \<Rightarrow> bool" where
  "nonneg_dataset data = list_all (\<lambda>(key, record). nonneg_counts record) data"

definition both_present :: "string \<Rightarrow> string \<Rightarrow> project_block \<Rightarrow> bool" where
  "both_present pop_id_x pop_id_y block =
     (map_of (allele_counts block) pop_id_x \<noteq> None \<and>
      map_of (allele_counts block) pop_id_y \<noteq> None)"

definition zero_total :: "string \<Rightarrow> string \<Rightarrow> project_block \<Rightarrow> bool" where
  "zero_total pop_id_x pop_id_y block =
     (case (map_of (allele_counts block) pop_id_x, map_of (allele_counts block) pop_id_y) of
        (Some px, Some py) \<Rightarrow> sum_list (map snd px) = 0 \<or> sum_list (map snd py) = 0
      | _ \<Rightarrow> False)"

section \<open>Population names: \<^verbatim>\<open>build_pop_map\<close>\<close>

text \<open>
  A node of the population metadata tree: \<^verbatim>\<open>biosample_id\<close>, \<^verbatim>\<open>name\<close> and, when the key \<^verbatim>\<open>subs\<close> is
  present, the list of sub-populations. The metadata reply is a JSON array of objects
  with a \<^verbatim>\<open>populations\<close> field.
\<close>

datatype population =
  Population (biosample_id: string) (name: string) (subs: "population list option")

record frequency_metadata =
  populations :: "population list"

record meta_response =
  meta_status_code :: int
  meta_json :: "frequency_metadata list"

text \<open>The local function \<^verbatim>\<open>_read\<close>; \<^verbatim>\<open>result\<close>, which it assigns to, is passed and returned.\<close>

fun read_pops :: "(string, string) dict \<Rightarrow> population list \<Rightarrow> (string, string) dict" where
  "read_pops result [] = result"
| "read_pops result (Population bid nm None # pops) =
     read_pops (AList.update bid nm result) pops"
| "read_pops result (Population bid nm (Some ss) # pops) =
     read_pops (read_pops (AList.update bid nm result) ss) pops"

definition build_pop_map :: "meta_response \<Rightarrow> py_error + (string, string) dict" where
  "build_pop_map meta_r =
     (if meta_status_code meta_r \<noteq> 200 then Inl MetadataError
      else case meta_json meta_r of
             [] \<Rightarrow> Inl IndexError
           | m # _ \<Rightarrow> Inr (read_pops [] (populations m)))"

subsection \<open>Notions of the specification\<close>

text \<open>
  The nodes of a list of trees as (biosample id, name) pairs, in depth-first order: a
  node, then its sub-populations, then its later siblings.
\<close>

fun tree_nodes :: "population list \<Rightarrow> (string \<times> string) list" where
  "tree_nodes [] = []"
| "tree_nodes (Population bid nm None # pops) = (bid, nm) # tree_nodes pops"
| "tree_nodes (Population bid nm (Some ss) # pops) = (bid, nm) # tree_nodes ss @ tree_nodes pops"

section \<open>Paginated download: \<^verbatim>\<open>download\<close>\<close>

text \<open>
  A request is the URL
  \<^verbatim>\<open>.../interval/{seq_id}:{start}:{length}/overlapping_frequency_records\<close>, that is, the three
  values put into it. Of a reply the code reads \<^verbatim>\<open>status_code\<close>, \<^verbatim>\<open>content\<close> and
  \<^verbatim>\<open>json()["results"]\<close>: the body is not JSON, or has no \<^verbatim>\<open>results\<close>, or has a dictionary of
  records there. The remote service is a transition function on a state of its own.
\<close>

record request =
  req_seq_id :: string
  req_start :: int
  req_length :: int

datatype 'v json_body = NotJSON | NoResults | Results "(string, 'v) dict"

record 'v response =
  status_code :: int
  content :: string
  json :: "'v json_body"

type_synonym ('s, 'v) server = "'s \<Rightarrow> request \<Rightarrow> 'v response \<times> 's"

subsection \<open>Keys: \<^verbatim>\<open>k.split('@')\<close> and \<^verbatim>\<open>int(s)\<close>\<close>

fun split_on :: "char \<Rightarrow> string \<Rightarrow> string list" where
  "split_on sep [] = [[]]"
| "split_on sep (c # cs) =
     (if c = sep then [] # split_on sep cs
      else case split_on sep cs of
             [] \<Rightarrow> [[c]]
           | p # ps \<Rightarrow> (c # p) # ps)"

text \<open>
  \<^verbatim>\<open>int(s)\<close> on an ASCII string, as in the Python 3.6 and 3.7 the notebook names: white space
  (tab, line feed, vertical tab, form feed, carriage return, space) around the number is
  dropped, a sign may come first, and the digits may be grouped by single underscores.
  \<open>None\<close> stands for the \<^verbatim>\<open>ValueError\<close>.
\<close>

definition is_space :: "char \<Rightarrow> bool" where
  "is_space c = (of_char c \<in> {9, 10, 11, 12, 13, 32 :: nat})"

definition is_digit :: "char \<Rightarrow> bool" where
  "is_digit c = (48 \<le> (of_char c :: nat) \<and> (of_char c :: nat) \<le> 57)"

definition strip :: "string \<Rightarrow> string" where
  "strip s = rev (dropWhile is_space (rev (dropWhile is_space s)))"

fun digits_value :: "nat \<Rightarrow> bool \<Rightarrow> string \<Rightarrow> nat option" where
  "digits_value acc after_digit [] = (if after_digit then Some acc else None)"
| "digits_value acc after_digit (c # cs) =
     (if c = CHR ''_'' then (if after_digit then digits_value acc False cs else None)
      else if is_digit c then digits_value (10 * acc + (of_char c - 48)) True cs
      else None)"

definition py_int :: "string \<Rightarrow> int option" where
  "py_int s =
     (case strip s of
        [] \<Rightarrow> None
      | c # cs \<Rightarrow>
          if c = CHR ''-'' then map_option (\<lambda>n. - int n) (digits_value 0 False cs)
          else if c = CHR ''+'' then map_option int (digits_value 0 False cs)
          else map_option int (digits_value 0 False (c # cs)))"

text \<open>\<^verbatim>\<open>l, s = k.split('@')\<close> followed by \<^verbatim>\<open>int(s)\<close>; both fail with a \<^verbatim>\<open>ValueError\<close>.\<close>

definition key_position :: "string \<Rightarrow> int option" where
  "key_position k = (case split_on CHR ''@'' k of [l, s] \<Rightarrow> py_int s | _ \<Rightarrow> None)"

subsection \<open>The loop\<close>

text \<open>\<^verbatim>\<open>data.update(result)\<close>.\<close>

definition dict_update :: "('k, 'v) dict \<Rightarrow> ('k, 'v) dict \<Rightarrow> ('k, 'v) dict" where
  "dict_update data result = fold (\<lambda>(k, v). AList.update k v) result data"

text \<open>The loop \<^verbatim>\<open>for k, v in result.items()\<close> at the end of the body, which moves \<^verbatim>\<open>start\<close>.\<close>

fun advance :: "int \<Rightarrow> (string, 'v) dict \<Rightarrow> py_error + int" where
  "advance start [] = Inr start"
| "advance start ((k, v) # rest) =
     (case key_position k of
        None \<Rightarrow> Inl ValueError
      | Some n \<Rightarrow> advance (max start n) rest)"

definition interval_request :: "string \<Rightarrow> int \<Rightarrow> int \<Rightarrow> request" where
  "interval_request seq_id start stop =
     \<lparr>req_seq_id = seq_id, req_start = start, req_length = max 1 (stop - start + 1)\<rparr>"

text \<open>
  The variables of the loop, with the state of the service and the list of the requests
  issued so far. The loop ends by \<^verbatim>\<open>return\<close> or \<^verbatim>\<open>raise\<close>; its result is that outcome with
  the requests issued.
\<close>

record ('s, 'v) dl_state =
  dl_server :: 's
  dl_start :: int
  dl_data :: "(string, 'v) dict"
  dl_requests :: "request list"

type_synonym 'v dl_result = "(py_error + (string, 'v) dict) \<times> request list"

datatype ('s, 'v) dl_iter = Exit "'v dl_result" | Continue "('s, 'v) dl_state"

text \<open>One pass through the body of \<^verbatim>\<open>while True\<close>.\<close>

definition download_iter ::
  "('s, 'v) server \<Rightarrow> string \<Rightarrow> int \<Rightarrow> ('s, 'v) dl_state \<Rightarrow> ('s, 'v) dl_iter"
where
  "download_iter get seq_id stop st =
     (let req = interval_request seq_id (dl_start st) stop;
          (resp, srv) = get (dl_server st) req;
          issued = dl_requests st @ [req]
      in if status_code resp div 100 \<noteq> 2
         then Exit (Inl (DownloadError (status_code resp) (content resp)), issued)
         else case json resp of
                NotJSON \<Rightarrow> Exit (Inl JSONDecodeError, issued)
              | NoResults \<Rightarrow> Exit (Inl (KeyError ''results''), issued)
              | Results result \<Rightarrow>
                  let data = dict_update (dl_data st) result
                  in if status_code resp = 200 then Exit (Inr data, issued)
                     else case advance (dl_start st) result of
                            Inl e \<Rightarrow> Exit (Inl e, issued)
                          | Inr start \<Rightarrow>
                              Continue \<lparr>dl_server = srv, dl_start = start,
                                        dl_data = data, dl_requests = issued\<rparr>)"

text \<open>The loop has no bound: a run that never leaves it has the value \<open>None\<close>.\<close>

partial_function (option) download_loop ::
  "('s, 'v) server \<Rightarrow> string \<Rightarrow> int \<Rightarrow> ('s, 'v) dl_state \<Rightarrow> 'v dl_result option"
where
  "download_loop get seq_id stop st =
     (case download_iter get seq_id stop st of
        Exit r \<Rightarrow> Some r
      | Continue st' \<Rightarrow> download_loop get seq_id stop st')"

definition download ::
  "('s, 'v) server \<Rightarrow> 's \<Rightarrow> string \<Rightarrow> int \<Rightarrow> int \<Rightarrow> 'v dl_result option"
where
  "download get srv seq_id start stop =
     download_loop get seq_id stop
       \<lparr>dl_server = srv, dl_start = start, dl_data = [], dl_requests = []\<rparr>"

text \<open>The first \<open>n\<close> passes of the loop, to speak of a run that is still going on.\<close>

fun download_passes ::
  "('s, 'v) server \<Rightarrow> string \<Rightarrow> int \<Rightarrow> nat \<Rightarrow> ('s, 'v) dl_state \<Rightarrow> ('s, 'v) dl_iter"
where
  "download_passes get seq_id stop 0 st = Continue st"
| "download_passes get seq_id stop (Suc n) st =
     (case download_iter get seq_id stop st of
        Exit r \<Rightarrow> Exit r
      | Continue st' \<Rightarrow> download_passes get seq_id stop n st')"

subsection \<open>Notions of the specification\<close>

text \<open>
  A service that answers the \<open>i\<close>-th request with the \<open>i\<close>-th reply of a list (and with
  a fixed reply once the list is used up), and a service that always gives the same reply.
\<close>

definition replay :: "'v response list \<Rightarrow> 'v response \<Rightarrow> (nat, 'v) server" where
  "replay replies fallback i req =
     ((if i < length replies then replies ! i else fallback), Suc i)"

definition always :: "'v response \<Rightarrow> (unit, 'v) server" where
  "always resp u req = (resp, u)"

text \<open>The positions in the keys of a page, and a page all of whose keys have one.\<close>

definition key_positions :: "(string, 'v) dict \<Rightarrow> int list" where
  "key_positions result = List.map_filter (\<lambda>(k, v). key_position k) result"

definition keys_well_formed :: "(string, 'v) dict \<Rightarrow> bool" where
  "keys_well_formed result = list_all (\<lambda>(k, v). key_position k \<noteq> None) result"

text \<open>A reply that carries a page of records, and the page it carries.\<close>

definition is_page :: "'v response \<Rightarrow> bool" where
  "is_page resp = (case json resp of Results result \<Rightarrow> True | _ \<Rightarrow> False)"

definition page_results :: "'v response \<Rightarrow> (string, 'v) dict" where
  "page_results resp = (case json resp of Results result \<Rightarrow> result | _ \<Rightarrow> [])"

section \<open>Properties of \<^verbatim>\<open>maf\<close>\<close>

lemma sum_list_sort: "sum_list (sort xs) = sum_list (xs :: int list)"
  by (metis mset_sort sum_mset_sum_list)

lemma map_of_fold_update:
  "map_of (fold (\<lambda>(p, x). AList.update p (f x)) es m) p =
     (case map_of (rev es) p of None \<Rightarrow> map_of m p | Some x \<Rightarrow> Some (f x))"
  by (induction es arbitrary: m) (auto simp: update_conv' map_add_def split: option.splits)

lemma descending_two:
  assumes "2 \<le> length (xs :: int list)"
  obtains a b rest where "rev (sort xs) = a # b # rest" "b \<le> a" "\<forall>x \<in> set rest. x \<le> b"
proof -
  define s where "s = rev (sort xs)"
  have "2 \<le> length s" using assms by (simp add: s_def)
  then obtain a b rest where s: "s = a # b # rest"
    by (cases s; cases "tl s") auto
  have "sorted_wrt (\<lambda>x y. y \<le> x) s"
    by (simp add: s_def sorted_wrt_rev)
  with s have "b \<le> a" "\<forall>x \<in> set rest. x \<le> b" by auto
  with s that show ?thesis by (simp add: s_def)
qed

lemma rev_sort_second:
  assumes "2 \<le> length xs"
  shows "rev (sort xs) ! 1 = second_largest (xs :: int list)"
proof -
  from assms obtain a b rest where
    s: "rev (sort xs) = a # b # rest" and ba: "b \<le> a" and rb: "\<forall>x \<in> set rest. x \<le> b"
    by (rule descending_two)
  have ms: "mset xs = mset (a # b # rest)"
    by (metis s mset_rev mset_sort)
  then have sets: "set xs = set (a # b # rest)" by (metis set_mset_mset)
  have "Max (set (a # b # rest)) = a"
    using ba rb by (intro Max_eqI) auto
  then have mx: "Max (set xs) = a" by (simp add: sets)
  have "mset (remove1 a xs) = mset (b # rest)"
    using ms by simp
  then have "set (remove1 a xs) = set (b # rest)" by (metis set_mset_mset)
  moreover have "Max (set (b # rest)) = b"
    using rb by (intro Max_eqI) auto
  ultimately show ?thesis by (simp add: second_largest_def mx s)
qed

lemma rev_sort_second_half:
  assumes "2 \<le> length xs" "\<forall>x \<in> set xs. 0 \<le> x"
  shows "0 \<le> rev (sort xs) ! 1 \<and> 2 * (rev (sort xs) ! 1) \<le> sum_list (xs :: int list)"
proof -
  from assms(1) obtain a b rest where
    s: "rev (sort xs) = a # b # rest" and ba: "b \<le> a"
    by (rule descending_two)
  have nn: "\<forall>x \<in> set (a # b # rest). 0 \<le> x"
    using assms(2) by (metis s set_rev set_sort)
  have "sum_list (a # b # rest) = sum_list xs"
    by (metis s sum_list_sort sum_list_rev)
  moreover have "0 \<le> sum_list rest" using nn by (intro sum_list_nonneg) simp
  moreover have "0 \<le> b" using nn by simp
  ultimately show ?thesis using ba by (simp add: s)
qed

lemma float_overflow_gt_one: "1 < float_overflow"
proof -
  have "(2 :: int) ^ 1024 = 2 ^ 970 * 2 ^ 54" by (simp add: power_add [symmetric])
  moreover have "(1 :: int) \<le> 2 ^ 970" by simp
  ultimately show ?thesis by (simp add: float_overflow_def algebra_simps)
qed

lemma py_truediv_small:
  assumes "b \<noteq> 0" "\<bar>a\<bar> \<le> \<bar>b\<bar>"
  shows "py_truediv a b = Inr (real_of_int a / real_of_int b)"
proof -
  have "0 < \<bar>b\<bar>" using assms(1) by simp
  with float_overflow_gt_one have "1 * \<bar>b\<bar> < float_overflow * \<bar>b\<bar>"
    by (intro mult_strict_right_mono)
  with assms(2) have "\<not> float_overflow * \<bar>b\<bar> \<le> \<bar>a\<bar>" by simp
  with assms(1) show ?thesis by (simp add: py_truediv_def)
qed

lemma py_truediv_error: "py_truediv a b = Inl e \<Longrightarrow> b \<noteq> 0 \<Longrightarrow> e = OverflowError"
  by (auto simp: py_truediv_def split: if_splits)

lemma py_truediv_examples:
  "py_truediv 3 10 = Inr (3 / 10)"
  "py_truediv 1 0 = Inl ZeroDivisionError"
  "py_truediv (10 ^ 400) 1 = Inl OverflowError"
  "py_truediv (2 ^ 1024 - 2 ^ 970) 1 = Inl OverflowError"
  "py_truediv (2 ^ 1024 - 2 ^ 970 - 1) 1 = Inr (real_of_int (2 ^ 1024 - 2 ^ 970 - 1) / 1)"
  by (simp_all add: py_truediv_def float_overflow_def)

text \<open>
  Outside the data model, with a negative count, \<^verbatim>\<open>maf\<close> can raise: the counts below sum to
  1 and the second-largest is \<open>n\<close>, for instance \<open>10 ^ 400\<close>.
\<close>

lemma maf_overflow_outside_data_model:
  assumes "float_overflow \<le> n"
  shows "maf \<lparr>counts = [(''proj'', \<lparr>allele_counts =
           [(''pop'', [(''A'', n + 1), (''B'', n), (''C'', - 2 * n)])]\<rparr>)]\<rparr>
         = Inl OverflowError"
proof -
  from assms float_overflow_gt_one have n: "1 < n" by simp
  have p: "py_truediv n 1 = Inl OverflowError"
    using assms n by (simp add: py_truediv_def)
  from n have "sort [n + 1, n, - 2 * n] = [- 2 * n, n, n + 1]" by simp
  with p show ?thesis
    by (simp add: maf_def maf_population_def del: sort_key_simps)
qed

lemma member_le_sum_list_int:
  "\<forall>x \<in> set xs. 0 \<le> x \<Longrightarrow> x \<in> set xs \<Longrightarrow> x \<le> sum_list (xs :: int list)"
proof (induction xs)
  case Nil
  then show ?case by simp
next
  case (Cons y ys)
  have "0 \<le> sum_list ys" using Cons.prems(1) by (intro sum_list_nonneg) simp
  with Cons show ?case by auto
qed

lemma maf_population_value:
  assumes "\<forall>(allele, c) \<in> set ac. 0 \<le> c"
  shows "maf_population ac = Inr (maf_value ac)"
proof (cases "length ac \<le> 1 \<or> sum_list (map snd ac) \<le> 0")
  case True
  then show ?thesis
    by (auto simp: maf_population_def maf_value_def Let_def sum_list_sort)
next
  case False
  then have len: "2 \<le> length (map snd ac)" and pos: "0 < sum_list (map snd ac)" by auto
  have "\<forall>x \<in> set (map snd ac). 0 \<le> x" using assms by auto
  from rev_sort_second_half [OF len this]
  have "\<bar>rev (sort (map snd ac)) ! 1\<bar> \<le> \<bar>sum_list (map snd ac)\<bar>" by simp
  with pos have "py_truediv (rev (sort (map snd ac)) ! 1) (sum_list (map snd ac)) =
      Inr (real_of_int (rev (sort (map snd ac)) ! 1) / real_of_int (sum_list (map snd ac)))"
    by (intro py_truediv_small) simp_all
  with False show ?thesis
    by (simp add: maf_population_def maf_value_def Let_def sum_list_sort)
qed

lemma maf_population_error: "maf_population ac = Inl e \<Longrightarrow> e = OverflowError"
  by (auto simp: maf_population_def Let_def sum_list_sort split: if_splits
      dest: py_truediv_error)

lemma maf_populations_error: "maf_populations m ps = Inl e \<Longrightarrow> e = OverflowError"
  by (induction ps arbitrary: m) (auto split: sum.splits dest: maf_population_error)

lemma maf_projects_error: "maf_projects m bs = Inl e \<Longrightarrow> e = OverflowError"
  by (induction bs arbitrary: m) (auto split: sum.splits dest: maf_populations_error)

lemma maf_populations_fold:
  "\<forall>(p, ac) \<in> set ps. \<forall>(allele, c) \<in> set ac. 0 \<le> c \<Longrightarrow>
     maf_populations m ps = Inr (fold (\<lambda>(p, ac). AList.update p (maf_value ac)) ps m)"
  by (induction ps arbitrary: m) (auto simp: maf_population_value)

lemma maf_projects_fold:
  "\<forall>(p, ac) \<in> set (concat (map (\<lambda>(project, block). allele_counts block) bs)).
       \<forall>(allele, c) \<in> set ac. 0 \<le> c \<Longrightarrow>
     maf_projects m bs =
       Inr (fold (\<lambda>(p, ac). AList.update p (maf_value ac))
              (concat (map (\<lambda>(project, block). allele_counts block) bs)) m)"
proof (induction bs arbitrary: m)
  case Nil
  show ?case by simp
next
  case (Cons pb bs)
  obtain project block where pb: "pb = (project, block)" by (cases pb)
  from Cons.prems have here: "\<forall>(p, ac) \<in> set (allele_counts block). \<forall>(allele, c) \<in> set ac. 0 \<le> c"
    and rest: "\<forall>(p, ac) \<in> set (concat (map (\<lambda>(project, block). allele_counts block) bs)).
       \<forall>(allele, c) \<in> set ac. 0 \<le> c"
    by (auto simp: pb)
  show ?case
    by (simp add: pb maf_populations_fold [OF here] Cons.IH [OF rest])
qed

lemma maf_fold:
  assumes "nonneg_counts r"
  shows "maf r = Inr (fold (\<lambda>(p, ac). AList.update p (maf_value ac)) (population_entries r) [])"
proof -
  from assms have
    "\<forall>(p, ac) \<in> set (concat (map (\<lambda>(project, block). allele_counts block) (counts r))).
       \<forall>(allele, c) \<in> set ac. 0 \<le> c"
    by (auto simp: nonneg_counts_def population_entries_def list_all_iff)
  from maf_projects_fold [OF this] show ?thesis
    by (simp add: maf_def population_entries_def)
qed

lemma maf_lookup:
  assumes "nonneg_counts r"
  shows "\<exists>m. maf r = Inr m \<and>
       (\<forall>p. map_of m p = map_option maf_value (last_allele_counts r p))"
  by (simp add: maf_fold [OF assms] map_of_fold_update last_allele_counts_def
      split: option.splits)

lemma maf_value_range:
  assumes "\<forall>(allele, c) \<in> set ac. 0 \<le> c"
  shows "0 \<le> maf_value ac \<and> maf_value ac \<le> 1 / 2"
proof (cases "length ac \<le> 1 \<or> sum_list (map snd ac) \<le> 0")
  case True
  then show ?thesis by (simp add: maf_value_def)
next
  case False
  then have len: "2 \<le> length (map snd ac)" and pos: "0 < sum_list (map snd ac)" by auto
  have "\<forall>x \<in> set (map snd ac). 0 \<le> x" using assms by auto
  from rev_sort_second_half [OF len this]
  have b: "0 \<le> rev (sort (map snd ac)) ! 1"
    and h: "2 * (rev (sort (map snd ac)) ! 1) \<le> sum_list (map snd ac)" by auto
  have "real_of_int (2 * (rev (sort (map snd ac)) ! 1)) \<le> real_of_int (sum_list (map snd ac))"
    using h by (rule of_int_le_iff [THEN iffD2])
  then have "real_of_int (rev (sort (map snd ac)) ! 1) / real_of_int (sum_list (map snd ac)) \<le> 1 / 2"
    using pos by (simp add: field_simps)
  moreover have "0 \<le> real_of_int (rev (sort (map snd ac)) ! 1) / real_of_int (sum_list (map snd ac))"
    using b pos by simp
  ultimately show ?thesis using False by (simp add: maf_value_def)
qed

lemma set_fold_update:
  "set (fold (\<lambda>(p, x). AList.update p (f x)) es m) \<subseteq> set m \<union> (\<lambda>(p, x). (p, f x)) ` set es"
proof (induction es arbitrary: m)
  case Nil
  show ?case by simp
next
  case (Cons e es)
  obtain p x where e: "e = (p, x)" by (cases e)
  have "set (AList.update p (f x) m) \<subseteq> insert (p, f x) (set m)"
    by (induction m) auto
  with Cons [of "AList.update p (f x) m"] show ?case
    by (auto simp: e)
qed

text \<open>
  C4. For a record whose counts are all at least 0, as the data model has them, and a
  population whose allele-count dictionary (the one \<^verbatim>\<open>maf\<close> visits last for that population)
  has at least two alleles and a positive total, \<^verbatim>\<open>maf\<close> returns a dictionary that gives the
  population the second-largest count divided by the total of its counts. The witness is
  the record with counts A:7 and B:3, whose MAF is 3/10 = 0.3.
\<close>

theorem maf_second_largest_over_total:
  assumes "nonneg_counts record"
    and "last_allele_counts record population = Some ac"
    and "2 \<le> length ac"
    and "0 < sum_list (map snd ac)"
  shows "\<exists>m. maf record = Inr m \<and>
           map_of m population =
             Some (real_of_int (second_largest (map snd ac)) / real_of_int (sum_list (map snd ac)))"
proof -
  from maf_lookup [OF assms(1)] obtain m where
    m: "maf record = Inr m" "\<forall>p. map_of m p = map_option maf_value (last_allele_counts record p)"
    by blast
  have "maf_value ac =
      real_of_int (second_largest (map snd ac)) / real_of_int (sum_list (map snd ac))"
    using assms(3,4) rev_sort_second [of "map snd ac"] by (simp add: maf_value_def)
  with m assms(2) show ?thesis by simp
qed

theorem maf_second_largest_over_total_witness:
  "nonneg_counts
     \<lparr>counts = [(''proj'', \<lparr>allele_counts = [(''pop'', [(''A'', 7), (''B'', 3)])]\<rparr>)]\<rparr>
   \<and> last_allele_counts
     \<lparr>counts = [(''proj'', \<lparr>allele_counts = [(''pop'', [(''A'', 7), (''B'', 3)])]\<rparr>)]\<rparr> ''pop''
     = Some [(''A'', 7), (''B'', 3)]
   \<and> 2 \<le> length [(''A'', 7 :: int), (''B'', 3)]
   \<and> 0 < sum_list (map snd [(''A'', 7 :: int), (''B'', 3)])
   \<and> (\<exists>m. maf \<lparr>counts = [(''proj'', \<lparr>allele_counts = [(''pop'', [(''A'', 7), (''B'', 3)])]\<rparr>)]\<rparr>
            = Inr m \<and> map_of m ''pop'' = Some (3 / 10) \<and> map_of m ''pop'' = Some 0.3)"
proof -
  have l: "last_allele_counts
     \<lparr>counts = [(''proj'', \<lparr>allele_counts = [(''pop'', [(''A'', 7), (''B'', 3)])]\<rparr>)]\<rparr> ''pop''
     = Some [(''A'', 7), (''B'', 3)]"
    by (simp add: last_allele_counts_def population_entries_def)
  have n: "2 \<le> length [(''A'', 7 :: int), (''B'', 3)]" by simp
  have t: "0 < sum_list (map snd [(''A'', 7 :: int), (''B'', 3)])" by simp
  have s: "second_largest (map snd [(''A'', 7 :: int), (''B'', 3)]) = 3"
    by (simp add: second_largest_def)
  have c: "nonneg_counts
     \<lparr>counts = [(''proj'', \<lparr>allele_counts = [(''pop'', [(''A'', 7), (''B'', 3)])]\<rparr>)]\<rparr>"
    by (simp add: nonneg_counts_def population_entries_def)
  from maf_second_largest_over_total [OF c l n t] s l c show ?thesis by simp
qed

text \<open>
  C5. \<^verbatim>\<open>maf\<close> never divides by zero: no record makes it end with \<^verbatim>\<open>ZeroDivisionError\<close>. On a
  record whose counts are all at least 0, as the data model has them, \<^verbatim>\<open>maf\<close> never raises:
  it returns a dictionary, and in that dictionary every population whose allele-count
  dictionary has at most one allele, or whose counts sum to 0, has the value 0.
\<close>

theorem maf_never_raises_zero_when_degenerate:
  "maf record \<noteq> Inl ZeroDivisionError \<and>
   (nonneg_counts record \<longrightarrow>
      (\<exists>m. maf record = Inr m \<and>
         (\<forall>population ac.
            last_allele_counts record population = Some ac \<and>
            (length ac \<le> 1 \<or> sum_list (map snd ac) = 0)
            \<longrightarrow> map_of m population = Some 0)))"
proof (intro conjI impI)
  show "maf record \<noteq> Inl ZeroDivisionError"
    using maf_projects_error [of "[]" "counts record" ZeroDivisionError]
    by (auto simp: maf_def)
next
  assume nn: "nonneg_counts record"
  from maf_lookup [OF nn] obtain m where
    m: "maf record = Inr m" "\<forall>p. map_of m p = map_option maf_value (last_allele_counts record p)"
    by blast
  have "map_of m population = Some 0"
    if "last_allele_counts record population = Some ac"
      and "length ac \<le> 1 \<or> sum_list (map snd ac) = 0" for population ac
  proof -
    have "maf_value ac = 0" using that(2) by (auto simp: maf_value_def)
    with m(2) that(1) show ?thesis by simp
  qed
  with m(1) show "\<exists>m. maf record = Inr m \<and>
         (\<forall>population ac.
            last_allele_counts record population = Some ac \<and>
            (length ac \<le> 1 \<or> sum_list (map snd ac) = 0)
            \<longrightarrow> map_of m population = Some 0)"
    by blast
qed

theorem maf_never_raises_zero_when_degenerate_witness:
  "nonneg_counts
     \<lparr>counts = [(''proj'', \<lparr>allele_counts =
        [(''one'', [(''A'', 5)]), (''zero'', [(''A'', 0), (''B'', 0)]), (''none'', [])]\<rparr>)]\<rparr>
   \<and> last_allele_counts
     \<lparr>counts = [(''proj'', \<lparr>allele_counts =
        [(''one'', [(''A'', 5)]), (''zero'', [(''A'', 0), (''B'', 0)]), (''none'', [])]\<rparr>)]\<rparr> ''one''
     = Some [(''A'', 5)]
   \<and> length [(''A'', 5 :: int)] \<le> 1
   \<and> last_allele_counts
     \<lparr>counts = [(''proj'', \<lparr>allele_counts =
        [(''one'', [(''A'', 5)]), (''zero'', [(''A'', 0), (''B'', 0)]), (''none'', [])]\<rparr>)]\<rparr> ''zero''
     = Some [(''A'', 0), (''B'', 0)]
   \<and> sum_list (map snd [(''A'', 0 :: int), (''B'', 0)]) = 0
   \<and> (\<exists>m. maf \<lparr>counts = [(''proj'', \<lparr>allele_counts =
        [(''one'', [(''A'', 5)]), (''zero'', [(''A'', 0), (''B'', 0)]), (''none'', [])]\<rparr>)]\<rparr> = Inr m
        \<and> map_of m ''one'' = Some 0 \<and> map_of m ''zero'' = Some 0)"
proof -
  let ?r = "\<lparr>counts = [(''proj'', \<lparr>allele_counts =
        [(''one'', [(''A'', 5)]), (''zero'', [(''A'', 0), (''B'', 0)]), (''none'', [])]\<rparr>)]\<rparr>"
  have nn: "nonneg_counts ?r"
    by (simp add: nonneg_counts_def population_entries_def)
  have one: "last_allele_counts ?r ''one'' = Some [(''A'', 5)]"
    by (simp add: last_allele_counts_def population_entries_def)
  have zero: "last_allele_counts ?r ''zero'' = Some [(''A'', 0), (''B'', 0)]"
    by (simp add: last_allele_counts_def population_entries_def)
  from maf_never_raises_zero_when_degenerate [of ?r] nn obtain m where
    m: "maf ?r = Inr m"
    and z: "\<forall>population ac.
          last_allele_counts ?r population = Some ac \<and>
          (length ac \<le> 1 \<or> sum_list (map snd ac) = 0)
          \<longrightarrow> map_of m population = Some 0"
    by blast
  from z one have "map_of m ''one'' = Some 0" by simp
  moreover from z zero have "map_of m ''zero'' = Some 0" by simp
  ultimately show ?thesis using m one zero nn by simp
qed

text \<open>
  C9. For a record whose allele counts are all non-negative, every value of the dictionary
  that \<^verbatim>\<open>maf\<close> returns lies between 0 and 1/2; and wherever a population has at least two
  alleles, twice its second-largest count is at most the total of its counts.
\<close>

theorem maf_at_most_half:
  assumes "nonneg_counts record"
  shows "\<exists>m. maf record = Inr m \<and>
           (\<forall>(population, v) \<in> set m. 0 \<le> v \<and> v \<le> 1 / 2) \<and>
           (\<forall>(population, ac) \<in> set (population_entries record).
              2 \<le> length ac \<longrightarrow> 2 * second_largest (map snd ac) \<le> sum_list (map snd ac))"
proof -
  have nn: "\<forall>(allele, c) \<in> set ac. 0 \<le> c"
    if "(population, ac) \<in> set (population_entries record)" for population ac
    using assms that by (auto simp: nonneg_counts_def list_all_iff)
  have range: "0 \<le> v \<and> v \<le> 1 / 2"
    if "(population, v) \<in> set (fold (\<lambda>(p, ac). AList.update p (maf_value ac))
                                   (population_entries record) [])" for population v
  proof -
    from that set_fold_update [of maf_value "population_entries record" "[]"]
    obtain ac where "(population, ac) \<in> set (population_entries record)" "v = maf_value ac"
      by auto
    with nn [of population ac] maf_value_range [of ac] show ?thesis by simp
  qed
  have half: "2 * second_largest (map snd ac) \<le> sum_list (map snd ac)"
    if "(population, ac) \<in> set (population_entries record)" "2 \<le> length ac" for population ac
  proof -
    have "\<forall>x \<in> set (map snd ac). 0 \<le> x" using nn [OF that(1)] by auto
    with that(2) rev_sort_second_half [of "map snd ac"] rev_sort_second [of "map snd ac"]
    show ?thesis by simp
  qed
  show ?thesis
    using range half by (auto simp: maf_fold [OF assms])
qed

theorem maf_at_most_half_witness:
  "nonneg_counts
     \<lparr>counts = [(''proj'', \<lparr>allele_counts = [(''pop'', [(''A'', 5), (''B'', 5), (''C'', 0)])]\<rparr>)]\<rparr>
   \<and> (\<exists>m. maf \<lparr>counts =
          [(''proj'', \<lparr>allele_counts = [(''pop'', [(''A'', 5), (''B'', 5), (''C'', 0)])]\<rparr>)]\<rparr> = Inr m
        \<and> (\<forall>(population, v) \<in> set m. 0 \<le> v \<and> v \<le> 1 / 2))
   \<and> 2 * second_largest (map snd [(''A'', 5 :: int), (''B'', 5), (''C'', 0)])
        \<le> sum_list (map snd [(''A'', 5 :: int), (''B'', 5), (''C'', 0)])"
proof -
  let ?r = "\<lparr>counts =
          [(''proj'', \<lparr>allele_counts = [(''pop'', [(''A'', 5), (''B'', 5), (''C'', 0)])]\<rparr>)]\<rparr>"
  have n: "nonneg_counts ?r"
    by (simp add: nonneg_counts_def population_entries_def)
  have e: "population_entries ?r = [(''pop'', [(''A'', 5), (''B'', 5), (''C'', 0)])]"
    by (simp add: population_entries_def)
  from maf_at_most_half [OF n] n show ?thesis
    unfolding e by auto
qed

section \<open>Properties of \<^verbatim>\<open>cross_frequency\<close>\<close>

lemma nonneg_alleles_le_total:
  assumes "nonneg_alleles p" "(allele, c) \<in> set p"
  shows "\<bar>c\<bar> \<le> \<bar>sum_list (map snd p)\<bar>"
proof -
  have nn: "\<forall>x \<in> set (map snd p). 0 \<le> x"
    using assms(1) by (auto simp: nonneg_alleles_def list_all_iff)
  moreover have "c \<in> set (map snd p)" using assms(2) by force
  ultimately have "0 \<le> c" "c \<le> sum_list (map snd p)"
    using member_le_sum_list_int by auto
  then show ?thesis by simp
qed

lemma nonneg_counts_blocks:
  assumes "nonneg_counts r" "(project, block) \<in> set (counts r)"
    and "(p, ac) \<in> set (allele_counts block)"
  shows "nonneg_alleles ac"
proof -
  from assms(2,3) have "(p, ac) \<in> set (population_entries r)"
    by (force simp: population_entries_def)
  with assms(1) show ?thesis
    by (auto simp: nonneg_counts_def nonneg_alleles_def list_all_iff)
qed

lemma pop_freq_alleles_total:
  "tot \<noteq> 0 \<Longrightarrow> \<forall>(allele, c) \<in> set p. \<bar>c\<bar> \<le> \<bar>tot\<bar> \<Longrightarrow>
     \<exists>r'. pop_freq_alleles tot r p = Inr r'"
  by (induction p arbitrary: r) (auto simp: py_truediv_small)

lemma pop_freq_total:
  assumes "nonneg_alleles p"
  shows "\<exists>r. pop_freq p = Inr r \<and> (r = None \<longleftrightarrow> sum_list (map snd p) = 0)"
proof (cases "sum_list (map snd p) = 0")
  case True
  then show ?thesis by (simp add: pop_freq_def)
next
  case False
  have "\<forall>(allele, c) \<in> set p. \<bar>c\<bar> \<le> \<bar>sum_list (map snd p)\<bar>"
    using nonneg_alleles_le_total [OF assms] by auto
  from pop_freq_alleles_total [OF False this, of "[]"] obtain r'
    where "pop_freq_alleles (sum_list (map snd p)) [] p = Inr r'" by blast
  with False show ?thesis by (simp add: pop_freq_def)
qed

text \<open>
  Outside the data model, with a negative count, a block can raise before the zero total
  of the other population is looked at: the counts of X below sum to 1.
\<close>

lemma cf_block_overflow_outside_data_model:
  assumes "float_overflow \<le> n"
  shows "cf_block ''X'' ''Y'' st
           \<lparr>allele_counts = [(''X'', [(''A'', n), (''B'', 1 - n)]), (''Y'', [(''A'', 0)])]\<rparr>
         = Inl OverflowError"
proof -
  from assms float_overflow_gt_one have n: "1 < n" by simp
  have "py_truediv n 1 = Inl OverflowError"
    using assms n by (simp add: py_truediv_def)
  then show ?thesis
    by (simp add: cf_block_def getitem_def pop_freq_def)
qed

lemma cf_alleles_counters:
  "records_missing_pop_data (cf_alleles pfy st pfx) = records_missing_pop_data st"
  by (induction pfx arbitrary: st) (auto split: option.splits)

lemma cf_alleles_total_records:
  "total_records (cf_alleles pfy st pfx) = total_records st"
  by (induction pfx arbitrary: st) (auto split: option.splits)

lemma cf_block_skip:
  assumes "map_of (allele_counts block) pop_id_x = Some px"
    and "map_of (allele_counts block) pop_id_y = Some py"
    and "nonneg_alleles px" "nonneg_alleles py"
    and "sum_list (map snd px) = 0 \<or> sum_list (map snd py) = 0"
  shows "cf_block pop_id_x pop_id_y st block =
           Inr (st\<lparr>records_missing_pop_data := records_missing_pop_data st + 1\<rparr>)"
proof -
  obtain rx where rx: "pop_freq px = Inr rx" "rx = None \<longleftrightarrow> sum_list (map snd px) = 0"
    using pop_freq_total [OF assms(3)] by blast
  obtain ry where ry: "pop_freq py = Inr ry" "ry = None \<longleftrightarrow> sum_list (map snd py) = 0"
    using pop_freq_total [OF assms(4)] by blast
  from assms(5) rx(2) ry(2) have "rx = None \<or> ry = None" by blast
  then show ?thesis
    using assms(1,2) rx(1) ry(1)
    by (auto simp: cf_block_def getitem_def split: option.splits)
qed

lemma cf_block_keep:
  assumes "map_of (allele_counts block) pop_id_x = Some px"
    and "map_of (allele_counts block) pop_id_y = Some py"
    and "nonneg_alleles px" "nonneg_alleles py"
    and "sum_list (map snd px) \<noteq> 0" "sum_list (map snd py) \<noteq> 0"
  shows "\<exists>st'. cf_block pop_id_x pop_id_y st block = Inr st' \<and>
           records_missing_pop_data st' = records_missing_pop_data st"
proof -
  obtain rx where rx: "pop_freq px = Inr rx" "rx = None \<longleftrightarrow> sum_list (map snd px) = 0"
    using pop_freq_total [OF assms(3)] by blast
  obtain ry where ry: "pop_freq py = Inr ry" "ry = None \<longleftrightarrow> sum_list (map snd py) = 0"
    using pop_freq_total [OF assms(4)] by blast
  from assms(5,6) rx(2) ry(2) obtain fx fy where "rx = Some fx" "ry = Some fy" by auto
  then show ?thesis
    using assms(1,2) rx(1) ry(1)
    by (simp add: cf_block_def getitem_def cf_alleles_counters)
qed

lemma cf_block_missing_x:
  "map_of (allele_counts block) pop_id_x = None \<Longrightarrow>
     cf_block pop_id_x pop_id_y st block = Inl (KeyError pop_id_x)"
  by (simp add: cf_block_def getitem_def)

lemma cf_block_missing_y:
  "map_of (allele_counts block) pop_id_x = Some px \<Longrightarrow>
   map_of (allele_counts block) pop_id_y = None \<Longrightarrow>
     cf_block pop_id_x pop_id_y st block = Inl (KeyError pop_id_y)"
  by (simp add: cf_block_def getitem_def)

text \<open>
  What one block with counts that are at least 0 does, by cases on the two lookups and
  the two totals.
\<close>

lemma cf_block_cases:
  assumes "\<forall>(p, ac) \<in> set (allele_counts block). nonneg_alleles ac"
  shows
  "(cf_block pop_id_x pop_id_y st block = Inl (KeyError pop_id_x) \<and>
      map_of (allele_counts block) pop_id_x = None)
   \<or> (cf_block pop_id_x pop_id_y st block = Inl (KeyError pop_id_y) \<and>
      map_of (allele_counts block) pop_id_y = None)
   \<or> (\<exists>st'. cf_block pop_id_x pop_id_y st block = Inr st' \<and>
        map_of (allele_counts block) pop_id_x \<noteq> None \<and>
        map_of (allele_counts block) pop_id_y \<noteq> None \<and>
        records_missing_pop_data st' =
          records_missing_pop_data st + (if zero_total pop_id_x pop_id_y block then 1 else 0))"
proof (cases "map_of (allele_counts block) pop_id_x")
  case None
  then show ?thesis by (simp add: cf_block_missing_x)
next
  case (Some px)
  note px = this
  from assms map_of_SomeD [OF px] have nx: "nonneg_alleles px" by auto
  show ?thesis
  proof (cases "map_of (allele_counts block) pop_id_y")
    case None
    with px show ?thesis by (simp add: cf_block_missing_y)
  next
    case (Some py)
    from assms map_of_SomeD [OF Some] have ny: "nonneg_alleles py" by auto
    show ?thesis
    proof (cases "sum_list (map snd px) = 0 \<or> sum_list (map snd py) = 0")
      case True
      from cf_block_skip [OF px Some nx ny True, of st] True px Some
      show ?thesis by (simp add: zero_total_def)
    next
      case False
      then have "sum_list (map snd px) \<noteq> 0" "sum_list (map snd py) \<noteq> 0" by auto
      from cf_block_keep [OF px Some nx ny this, of st] False px Some
      show ?thesis by (auto simp: zero_total_def)
    qed
  qed
qed

lemma cf_blocks_counter:
  assumes "\<forall>(project, block) \<in> set bs. \<forall>(p, ac) \<in> set (allele_counts block). nonneg_alleles ac"
    and "cf_blocks pop_id_x pop_id_y st bs = Inr st'"
  shows "records_missing_pop_data st' =
       records_missing_pop_data st + int (length (filter (zero_total pop_id_x pop_id_y) (map snd bs)))"
  using assms
proof (induction bs arbitrary: st)
  case Nil
  then show ?case by simp
next
  case (Cons pb bs)
  obtain project block where pb: "pb = (project, block)" by (cases pb)
  from Cons.prems(1) have here: "\<forall>(p, ac) \<in> set (allele_counts block). nonneg_alleles ac"
    and rest: "\<forall>(project, block) \<in> set bs.
        \<forall>(p, ac) \<in> set (allele_counts block). nonneg_alleles ac"
    by (auto simp: pb)
  from Cons.prems(2) cf_block_cases [OF here, of pop_id_x pop_id_y st] obtain st1 where
    st1: "cf_block pop_id_x pop_id_y st block = Inr st1"
      "records_missing_pop_data st1 =
         records_missing_pop_data st + (if zero_total pop_id_x pop_id_y block then 1 else 0)"
    by (auto simp: pb)
  with Cons.prems(2) have "cf_blocks pop_id_x pop_id_y st1 bs = Inr st'" by (simp add: pb)
  from Cons.IH [OF rest this] st1(2) show ?case by (simp add: pb)
qed

lemma cf_blocks_returns:
  assumes "\<forall>(project, block) \<in> set bs. \<forall>(p, ac) \<in> set (allele_counts block). nonneg_alleles ac"
    and "\<forall>(project, block) \<in> set bs. both_present pop_id_x pop_id_y block"
  shows "\<exists>st'. cf_blocks pop_id_x pop_id_y st bs = Inr st' \<and> total_records st' = total_records st"
  using assms
proof (induction bs arbitrary: st)
  case Nil
  then show ?case by simp
next
  case (Cons pb bs)
  obtain project block where pb: "pb = (project, block)" by (cases pb)
  from Cons.prems(1) have here: "\<forall>(p, ac) \<in> set (allele_counts block). nonneg_alleles ac"
    and rest: "\<forall>(project, block) \<in> set bs.
        \<forall>(p, ac) \<in> set (allele_counts block). nonneg_alleles ac"
    by (auto simp: pb)
  from Cons.prems(2) have bp: "both_present pop_id_x pop_id_y block"
    and bps: "\<forall>(project, block) \<in> set bs. both_present pop_id_x pop_id_y block"
    by (auto simp: pb)
  from bp obtain px py where px: "map_of (allele_counts block) pop_id_x = Some px"
    and py: "map_of (allele_counts block) pop_id_y = Some py"
    by (auto simp: both_present_def)
  from here map_of_SomeD [OF px] map_of_SomeD [OF py]
  have "nonneg_alleles px" "nonneg_alleles py" by auto
  then obtain rx ry where "pop_freq px = Inr rx" "pop_freq py = Inr ry"
    using pop_freq_total by blast
  then obtain st1 where st1: "cf_block pop_id_x pop_id_y st block = Inr st1"
    and t1: "total_records st1 = total_records st"
    using px py cf_alleles_total_records
    by (cases rx; cases ry) (auto simp: cf_block_def getitem_def)
  from Cons.IH [OF rest bps, of st1] st1 t1 show ?case by (simp add: pb)
qed

lemma cf_records_returns:
  assumes "nonneg_dataset data"
    and "list_all (both_present pop_id_x pop_id_y) (all_blocks data)"
  shows "\<exists>st'. cf_records pop_id_x pop_id_y st data = Inr st' \<and>
           total_records st' = total_records st + int (length data) \<and>
           records_missing_pop_data st' =
             records_missing_pop_data st +
             int (length (filter (zero_total pop_id_x pop_id_y) (all_blocks data)))"
  using assms
proof (induction data arbitrary: st)
  case Nil
  then show ?case by (simp add: all_blocks_def)
next
  case (Cons kr data)
  obtain key rcd where kr: "kr = (key, rcd)" by (cases kr)
  let ?st = "st\<lparr>total_records := total_records st + 1\<rparr>"
  from Cons.prems(1) have nr: "nonneg_counts rcd" and nd: "nonneg_dataset data"
    by (auto simp: nonneg_dataset_def kr)
  have here: "\<forall>(project, block) \<in> set (counts rcd).
      \<forall>(p, ac) \<in> set (allele_counts block). nonneg_alleles ac"
    using nonneg_counts_blocks [OF nr] by auto
  from Cons.prems(2) have
    bp: "\<forall>(project, block) \<in> set (counts rcd). both_present pop_id_x pop_id_y block"
    by (force simp: all_blocks_def kr list_all_iff)
  from Cons.prems(2) have
    bps: "list_all (both_present pop_id_x pop_id_y) (all_blocks data)"
    by (simp add: all_blocks_def kr)
  from cf_blocks_returns [OF here bp, of ?st] obtain st1 where
    st1: "cf_blocks pop_id_x pop_id_y ?st (counts rcd) = Inr st1"
    and t1: "total_records st1 = total_records ?st"
    by blast
  from cf_blocks_counter [OF here st1] have
    c1: "records_missing_pop_data st1 = records_missing_pop_data st +
        int (length (filter (zero_total pop_id_x pop_id_y) (map snd (counts rcd))))"
    by simp
  from Cons.IH [OF nd bps, of st1] st1 t1 c1 show ?case
    by (auto simp: kr all_blocks_def)
qed

lemma cf_blocks_missing:
  assumes "\<forall>(project, block) \<in> set bs. \<forall>(p, ac) \<in> set (allele_counts block). nonneg_alleles ac"
    and "(project, block) \<in> set bs"
    and "map_of (allele_counts block) pop_id_x = None \<or> map_of (allele_counts block) pop_id_y = None"
  shows "cf_blocks pop_id_x pop_id_y st bs = Inl (KeyError pop_id_x) \<or>
         cf_blocks pop_id_x pop_id_y st bs = Inl (KeyError pop_id_y)"
  using assms(1,2)
proof (induction bs arbitrary: st)
  case Nil
  then show ?case by simp
next
  case (Cons pb bs)
  obtain project' block' where pb: "pb = (project', block')" by (cases pb)
  from Cons.prems(1) have here: "\<forall>(p, ac) \<in> set (allele_counts block'). nonneg_alleles ac"
    and rest: "\<forall>(project, block) \<in> set bs.
        \<forall>(p, ac) \<in> set (allele_counts block). nonneg_alleles ac"
    by (auto simp: pb)
  show ?case
  proof (cases "pb = (project, block)")
    case True
    with pb have "block' = block" by simp
    with assms(3) cf_block_cases [OF here, of pop_id_x pop_id_y st] show ?thesis
      by (auto simp: pb)
  next
    case False
    with Cons.prems(2) have in_rest: "(project, block) \<in> set bs" by simp
    show ?thesis
    proof (cases "cf_block pop_id_x pop_id_y st block'")
      case (Inl e)
      with cf_block_cases [OF here, of pop_id_x pop_id_y st] show ?thesis
        by (auto simp: pb)
    next
      case (Inr st1)
      with Cons.IH [OF rest in_rest, of st1] show ?thesis by (simp add: pb)
    qed
  qed
qed

lemma cf_blocks_errors:
  assumes "\<forall>(project, block) \<in> set bs. \<forall>(p, ac) \<in> set (allele_counts block). nonneg_alleles ac"
    and "cf_blocks pop_id_x pop_id_y st bs = Inl e"
  shows "e = KeyError pop_id_x \<or> e = KeyError pop_id_y"
  using assms
proof (induction bs arbitrary: st)
  case Nil
  then show ?case by simp
next
  case (Cons pb bs)
  obtain project block where pb: "pb = (project, block)" by (cases pb)
  from Cons.prems(1) have here: "\<forall>(p, ac) \<in> set (allele_counts block). nonneg_alleles ac"
    and rest: "\<forall>(project, block) \<in> set bs.
        \<forall>(p, ac) \<in> set (allele_counts block). nonneg_alleles ac"
    by (auto simp: pb)
  show ?case
  proof (cases "cf_block pop_id_x pop_id_y st block")
    case (Inl e')
    with Cons.prems(2) cf_block_cases [OF here, of pop_id_x pop_id_y st] show ?thesis
      by (auto simp: pb)
  next
    case (Inr st1)
    with Cons.prems(2) Cons.IH [OF rest, of st1] show ?thesis by (simp add: pb)
  qed
qed

lemma cf_records_missing:
  assumes "nonneg_dataset data"
    and "(key, record) \<in> set data"
    and "(project, block) \<in> set (counts record)"
    and "map_of (allele_counts block) pop_id_x = None \<or> map_of (allele_counts block) pop_id_y = None"
  shows "cf_records pop_id_x pop_id_y st data = Inl (KeyError pop_id_x) \<or>
         cf_records pop_id_x pop_id_y st data = Inl (KeyError pop_id_y)"
  using assms(1,2)
proof (induction data arbitrary: st)
  case Nil
  then show ?case by simp
next
  case (Cons kr data)
  obtain key' rcd' where kr: "kr = (key', rcd')" by (cases kr)
  let ?st = "st\<lparr>total_records := total_records st + 1\<rparr>"
  from Cons.prems(1) have nr: "nonneg_counts rcd'" and nd: "nonneg_dataset data"
    by (auto simp: nonneg_dataset_def kr)
  have here: "\<forall>(project, block) \<in> set (counts rcd').
      \<forall>(p, ac) \<in> set (allele_counts block). nonneg_alleles ac"
    using nonneg_counts_blocks [OF nr] by auto
  show ?case
  proof (cases "kr = (key, record)")
    case True
    with kr have "rcd' = record" by simp
    with here have "\<forall>(project, block) \<in> set (counts record).
        \<forall>(p, ac) \<in> set (allele_counts block). nonneg_alleles ac"
      by simp
    from cf_blocks_missing [where st = ?st, OF this assms(3,4)] \<open>rcd' = record\<close>
    show ?thesis by (auto simp: kr)
  next
    case False
    with Cons.prems(2) have in_rest: "(key, record) \<in> set data" by simp
    show ?thesis
    proof (cases "cf_blocks pop_id_x pop_id_y ?st (counts rcd')")
      case (Inl e)
      with cf_blocks_errors [OF here Inl] show ?thesis by (auto simp: kr)
    next
      case (Inr st1)
      with Cons.IH [OF nd in_rest, of st1] show ?thesis by (simp add: kr)
    qed
  qed
qed

text \<open>
  C6. In a dataset whose counts are all at least 0, as the data model has them: a project
  block in which one of the two requested populations has a total allele count of 0
  leaves \<^verbatim>\<open>res_x\<close> and \<^verbatim>\<open>res_y\<close> as they are and adds exactly one to the skip counter; and when
  every block has both populations, \<^verbatim>\<open>cross_frequency\<close> returns, with a skip counter that is
  the number of such blocks in the dataset. On two records of one block each, the first
  with allele A at 2/5 = 0.4 in x and 3/5 = 0.6 in y and the second with total 0 in y,
  the counter is 1 and the sequences of A are [0.4] and [0.6].
\<close>

theorem cross_frequency_skips_zero_total:
  "(\<forall>st (block :: project_block) px py.
      map_of (allele_counts block) pop_id_x = Some px \<and>
      map_of (allele_counts block) pop_id_y = Some py \<and>
      nonneg_alleles px \<and> nonneg_alleles py \<and>
      (sum_list (map snd px) = 0 \<or> sum_list (map snd py) = 0)
      \<longrightarrow> cf_block pop_id_x pop_id_y st block =
            Inr (st\<lparr>records_missing_pop_data := records_missing_pop_data st + 1\<rparr>))
   \<and> (nonneg_dataset data \<and> list_all (both_present pop_id_x pop_id_y) (all_blocks data)
      \<longrightarrow> (\<exists>st. cross_frequency data pop_id_x pop_id_y = Inr st \<and>
              records_missing_pop_data st =
                int (length (filter (zero_total pop_id_x pop_id_y) (all_blocks data)))))
   \<and> cross_frequency
        [(''rs1@100'', \<lparr>counts = [(''proj'', \<lparr>allele_counts =
            [(''X'', [(''A'', 2), (''B'', 3)]), (''Y'', [(''A'', 3), (''B'', 2)])]\<rparr>)]\<rparr>),
         (''rs2@200'', \<lparr>counts = [(''proj'', \<lparr>allele_counts =
            [(''X'', [(''A'', 2), (''B'', 3)]), (''Y'', [(''A'', 0), (''B'', 0)])]\<rparr>)]\<rparr>)]
        ''X'' ''Y''
      = Inr \<lparr>res_x = [(''A'', [0.4]), (''B'', [0.6])],
             res_y = [(''A'', [0.6]), (''B'', [0.4])],
             records_missing_pop_data = 1, total_records = 2\<rparr>"
proof (intro conjI allI impI)
  fix st and block :: project_block and px py
  assume "map_of (allele_counts block) pop_id_x = Some px \<and>
      map_of (allele_counts block) pop_id_y = Some py \<and>
      nonneg_alleles px \<and> nonneg_alleles py \<and>
      (sum_list (map snd px) = 0 \<or> sum_list (map snd py) = 0)"
  then show "cf_block pop_id_x pop_id_y st block =
            Inr (st\<lparr>records_missing_pop_data := records_missing_pop_data st + 1\<rparr>)"
    using cf_block_skip by blast
next
  assume a: "nonneg_dataset data \<and> list_all (both_present pop_id_x pop_id_y) (all_blocks data)"
  from cf_records_returns [OF conjunct1 [OF a] conjunct2 [OF a],
      of "\<lparr>res_x = [], res_y = [], records_missing_pop_data = 0, total_records = 0\<rparr>"]
  show "\<exists>st. cross_frequency data pop_id_x pop_id_y = Inr st \<and>
              records_missing_pop_data st =
                int (length (filter (zero_total pop_id_x pop_id_y) (all_blocks data)))"
    by (auto simp: cross_frequency_def)
next
  show "cross_frequency
        [(''rs1@100'', \<lparr>counts = [(''proj'', \<lparr>allele_counts =
            [(''X'', [(''A'', 2), (''B'', 3)]), (''Y'', [(''A'', 3), (''B'', 2)])]\<rparr>)]\<rparr>),
         (''rs2@200'', \<lparr>counts = [(''proj'', \<lparr>allele_counts =
            [(''X'', [(''A'', 2), (''B'', 3)]), (''Y'', [(''A'', 0), (''B'', 0)])]\<rparr>)]\<rparr>)]
        ''X'' ''Y''
      = Inr \<lparr>res_x = [(''A'', [0.4]), (''B'', [0.6])],
             res_y = [(''A'', [0.6]), (''B'', [0.4])],
             records_missing_pop_data = 1, total_records = 2\<rparr>"
    by (simp add: cross_frequency_def cf_block_def getitem_def pop_freq_def py_truediv_small
        dd_append_def)
qed

theorem cross_frequency_skips_zero_total_witness:
  "map_of (allele_counts \<lparr>allele_counts =
       [(''X'', [(''A'', 2), (''B'', 3)]), (''Y'', [(''A'', 0), (''B'', 0)])]\<rparr>) ''X''
     = Some [(''A'', 2), (''B'', 3)]
   \<and> map_of (allele_counts \<lparr>allele_counts =
       [(''X'', [(''A'', 2), (''B'', 3)]), (''Y'', [(''A'', 0), (''B'', 0)])]\<rparr>) ''Y''
     = Some [(''A'', 0), (''B'', 0)]
   \<and> nonneg_alleles [(''A'', 2), (''B'', 3)]
   \<and> nonneg_alleles [(''A'', 0), (''B'', 0)]
   \<and> sum_list (map snd [(''A'', 0 :: int), (''B'', 0)]) = 0
   \<and> cf_block ''X'' ''Y''
        \<lparr>res_x = [(''A'', [0.4])], res_y = [(''A'', [0.6])],
         records_missing_pop_data = 0, total_records = 2\<rparr>
        \<lparr>allele_counts = [(''X'', [(''A'', 2), (''B'', 3)]), (''Y'', [(''A'', 0), (''B'', 0)])]\<rparr>
      = Inr \<lparr>res_x = [(''A'', [0.4])], res_y = [(''A'', [0.6])],
             records_missing_pop_data = 1, total_records = 2\<rparr>
   \<and> nonneg_dataset
        [(''rs1@100'', \<lparr>counts = [(''proj'', \<lparr>allele_counts =
            [(''X'', [(''A'', 2), (''B'', 3)]), (''Y'', [(''A'', 3), (''B'', 2)])]\<rparr>)]\<rparr>),
         (''rs2@200'', \<lparr>counts = [(''proj'', \<lparr>allele_counts =
            [(''X'', [(''A'', 2), (''B'', 3)]), (''Y'', [(''A'', 0), (''B'', 0)])]\<rparr>)]\<rparr>)]
   \<and> list_all (both_present ''X'' ''Y'') (all_blocks
        [(''rs1@100'', \<lparr>counts = [(''proj'', \<lparr>allele_counts =
            [(''X'', [(''A'', 2), (''B'', 3)]), (''Y'', [(''A'', 3), (''B'', 2)])]\<rparr>)]\<rparr>),
         (''rs2@200'', \<lparr>counts = [(''proj'', \<lparr>allele_counts =
            [(''X'', [(''A'', 2), (''B'', 3)]), (''Y'', [(''A'', 0), (''B'', 0)])]\<rparr>)]\<rparr>)])
   \<and> (\<exists>st. cross_frequency
        [(''rs1@100'', \<lparr>counts = [(''proj'', \<lparr>allele_counts =
            [(''X'', [(''A'', 2), (''B'', 3)]), (''Y'', [(''A'', 3), (''B'', 2)])]\<rparr>)]\<rparr>),
         (''rs2@200'', \<lparr>counts = [(''proj'', \<lparr>allele_counts =
            [(''X'', [(''A'', 2), (''B'', 3)]), (''Y'', [(''A'', 0), (''B'', 0)])]\<rparr>)]\<rparr>)]
        ''X'' ''Y'' = Inr st \<and> records_missing_pop_data st = 1)"
proof -
  let ?b1 = "\<lparr>allele_counts =
       [(''X'', [(''A'', 2), (''B'', 3)]), (''Y'', [(''A'', 3), (''B'', 2)])]\<rparr>"
  let ?b = "\<lparr>allele_counts =
       [(''X'', [(''A'', 2), (''B'', 3)]), (''Y'', [(''A'', 0), (''B'', 0)])]\<rparr>"
  let ?d = "[(''rs1@100'', \<lparr>counts = [(''proj'', ?b1)]\<rparr>),
            (''rs2@200'', \<lparr>counts = [(''proj'', ?b)]\<rparr>)]"
  let ?st = "\<lparr>res_x = [(''A'', [0.4 :: real])], res_y = [(''A'', [0.6 :: real])],
         records_missing_pop_data = 0, total_records = 2\<rparr>"
  have x: "map_of (allele_counts ?b) ''X'' = Some [(''A'', 2), (''B'', 3)]" by simp
  have y: "map_of (allele_counts ?b) ''Y'' = Some [(''A'', 0), (''B'', 0)]" by simp
  have nx: "nonneg_alleles [(''A'', 2), (''B'', 3)]" by (simp add: nonneg_alleles_def)
  have ny: "nonneg_alleles [(''A'', 0), (''B'', 0)]" by (simp add: nonneg_alleles_def)
  have z: "sum_list (map snd [(''A'', 0 :: int), (''B'', 0)]) = 0" by simp
  have nd: "nonneg_dataset ?d"
    by (simp add: nonneg_dataset_def nonneg_counts_def population_entries_def)
  have bp: "list_all (both_present ''X'' ''Y'') (all_blocks ?d)"
    by (simp add: all_blocks_def both_present_def)
  have zt: "filter (zero_total ''X'' ''Y'') (all_blocks ?d) = [?b]"
    by (simp add: all_blocks_def zero_total_def)
  note inst = cross_frequency_skips_zero_total [of "''X''" "''Y''" ?d]
  from inst have "cf_block ''X'' ''Y'' ?st ?b =
      Inr (?st\<lparr>records_missing_pop_data := records_missing_pop_data ?st + 1\<rparr>)"
    using x y nx ny z by blast
  moreover from inst nd bp have "\<exists>st. cross_frequency ?d ''X'' ''Y'' = Inr st \<and>
      records_missing_pop_data st = int (length (filter (zero_total ''X'' ''Y'') (all_blocks ?d)))"
    by blast
  then have "\<exists>st. cross_frequency ?d ''X'' ''Y'' = Inr st \<and> records_missing_pop_data st = 1"
    unfolding zt by simp
  ultimately show ?thesis using x y nx ny z nd bp by simp
qed

text \<open>
  C7. In a dataset whose counts are all at least 0, as the data model has them: if one of
  the two requested populations is absent from the allele-count dictionary of some
  project block of some record, \<^verbatim>\<open>cross_frequency\<close> ends with the \<^verbatim>\<open>KeyError\<close> of a failed lookup
  of one of the two identifiers, which nothing catches.
\<close>

theorem cross_frequency_missing_population:
  assumes "nonneg_dataset data"
    and "(key, record) \<in> set data"
    and "(project, block) \<in> set (counts record)"
    and "pop_id_x \<notin> fst ` set (allele_counts block) \<or> pop_id_y \<notin> fst ` set (allele_counts block)"
  shows "cross_frequency data pop_id_x pop_id_y = Inl (KeyError pop_id_x) \<or>
         cross_frequency data pop_id_x pop_id_y = Inl (KeyError pop_id_y)"
proof -
  from assms(4) have
    "map_of (allele_counts block) pop_id_x = None \<or> map_of (allele_counts block) pop_id_y = None"
    by (simp add: map_of_eq_None_iff)
  from cf_records_missing [OF assms(1,2,3) this] show ?thesis
    by (simp add: cross_frequency_def)
qed

theorem cross_frequency_missing_population_witness:
  "nonneg_dataset
       [(''rs1@100'', \<lparr>counts = [(''proj'', \<lparr>allele_counts =
                 [(''X'', [(''A'', 2), (''B'', 3)]), (''Y'', [(''A'', 3), (''B'', 2)])]\<rparr>)]\<rparr>),
        (''rs2@200'', \<lparr>counts = [(''proj'', \<lparr>allele_counts =
                 [(''X'', [(''A'', 2), (''B'', 3)])]\<rparr>)]\<rparr>)]
   \<and> (''rs2@200'', \<lparr>counts = [(''proj'', \<lparr>allele_counts = [(''X'', [(''A'', 2), (''B'', 3)])]\<rparr>)]\<rparr>)
     \<in> set [(''rs1@100'', \<lparr>counts = [(''proj'', \<lparr>allele_counts =
                 [(''X'', [(''A'', 2), (''B'', 3)]), (''Y'', [(''A'', 3), (''B'', 2)])]\<rparr>)]\<rparr>),
              (''rs2@200'', \<lparr>counts = [(''proj'', \<lparr>allele_counts =
                 [(''X'', [(''A'', 2), (''B'', 3)])]\<rparr>)]\<rparr>)]
   \<and> (''proj'', \<lparr>allele_counts = [(''X'', [(''A'', 2), (''B'', 3)])]\<rparr>)
     \<in> set (counts \<lparr>counts = [(''proj'', \<lparr>allele_counts = [(''X'', [(''A'', 2), (''B'', 3)])]\<rparr>)]\<rparr>)
   \<and> ''Y'' \<notin> fst ` set (allele_counts \<lparr>allele_counts = [(''X'', [(''A'', 2), (''B'', 3)])]\<rparr>)
   \<and> cross_frequency
         [(''rs1@100'', \<lparr>counts = [(''proj'', \<lparr>allele_counts =
             [(''X'', [(''A'', 2), (''B'', 3)]), (''Y'', [(''A'', 3), (''B'', 2)])]\<rparr>)]\<rparr>),
          (''rs2@200'', \<lparr>counts = [(''proj'', \<lparr>allele_counts =
             [(''X'', [(''A'', 2), (''B'', 3)])]\<rparr>)]\<rparr>)]
         ''X'' ''Y''
       = Inl (KeyError ''Y'')"
proof -
  let ?b = "\<lparr>allele_counts = [(''X'', [(''A'', 2 :: int), (''B'', 3)])]\<rparr>"
  let ?r = "\<lparr>counts = [(''proj'', ?b)]\<rparr>"
  let ?d = "[(''rs1@100'', \<lparr>counts = [(''proj'', \<lparr>allele_counts =
                 [(''X'', [(''A'', 2), (''B'', 3)]), (''Y'', [(''A'', 3), (''B'', 2)])]\<rparr>)]\<rparr>),
              (''rs2@200'', ?r)]"
  have nd: "nonneg_dataset ?d"
    by (simp add: nonneg_dataset_def nonneg_counts_def population_entries_def)
  have a: "(''rs2@200'', ?r) \<in> set ?d" by simp
  have b: "(''proj'', ?b) \<in> set (counts ?r)" by simp
  have c: "''Y'' \<notin> fst ` set (allele_counts ?b)" by simp
  then have c': "''X'' \<notin> fst ` set (allele_counts ?b) \<or> ''Y'' \<notin> fst ` set (allele_counts ?b)"
    by blast
  have ne: "cross_frequency ?d ''X'' ''Y'' \<noteq> Inl (KeyError ''X'')"
    by (simp add: cross_frequency_def cf_block_def getitem_def pop_freq_def py_truediv_small)
  from cross_frequency_missing_population [OF nd a b c'] ne
  have "cross_frequency ?d ''X'' ''Y'' = Inl (KeyError ''Y'')" by blast
  with nd a b c show ?thesis by blast
qed

section \<open>Properties of \<^verbatim>\<open>build_pop_map\<close>\<close>

lemma read_pops_fold:
  "read_pops result pops = fold (\<lambda>(k, v). AList.update k v) (tree_nodes pops) result"
  by (induction result pops rule: read_pops.induct) simp_all

lemma map_of_fold_update_id:
  "map_of (fold (\<lambda>(k, v). AList.update k v) es m) k =
     (case map_of (rev es) k of None \<Rightarrow> map_of m k | Some v \<Rightarrow> Some v)"
  using map_of_fold_update [of "\<lambda>v. v" es m k] by simp

lemma distinct_fold_update:
  "distinct (map fst m) \<Longrightarrow> distinct (map fst (fold (\<lambda>(k, v). AList.update k v) es m))"
  by (induction es arbitrary: m) (auto simp: distinct_update)

lemma keys_fold_update:
  "fst ` set (fold (\<lambda>(k, v). AList.update k v) es m) = fst ` set m \<union> fst ` set es"
proof (induction es arbitrary: m)
  case Nil
  show ?case by simp
next
  case (Cons e es)
  obtain k v where e: "e = (k, v)" by (cases e)
  have "fst ` set (fold (\<lambda>(k, v). AList.update k v) (e # es) m) =
      fst ` set (AList.update k v m) \<union> fst ` set es"
    using Cons [of "AList.update k v m"] by (simp add: e)
  also have "\<dots> = ({k} \<union> fst ` set m) \<union> fst ` set es"
    by (simp only: dom_update)
  finally show ?case by (auto simp: e)
qed

text \<open>
  C8. When the metadata reply has status 200 and a first element, \<^verbatim>\<open>build_pop_map\<close> returns a
  dictionary with distinct keys that has an entry for the biosample id of every node of
  the tree, at any depth, and no other key; an id is mapped to the name of the node
  visited last among the nodes with that id, hence to the node's own name when no later
  node has its id. For a root with two nested sub-populations the result is the three
  entries.
\<close>

theorem build_pop_map_all_nodes:
  "(meta_status_code meta_r = 200 \<and> meta_json meta_r = m # rest \<longrightarrow>
      (\<exists>result. build_pop_map meta_r = Inr result \<and>
         distinct (map fst result) \<and>
         fst ` set result = fst ` set (tree_nodes (populations m)) \<and>
         (\<forall>bid. map_of result bid = map_of (rev (tree_nodes (populations m))) bid) \<and>
         (\<forall>before bid nm after.
            tree_nodes (populations m) = before @ (bid, nm) # after \<and> bid \<notin> fst ` set after
            \<longrightarrow> map_of result bid = Some nm)))
   \<and> build_pop_map \<lparr>meta_status_code = 200, meta_json = [\<lparr>populations =
          [Population ''SAMN1'' ''Total'' (Some
             [Population ''SAMN2'' ''European'' None,
              Population ''SAMN3'' ''African'' None])]\<rparr>]\<rparr>
      = Inr [(''SAMN1'', ''Total''), (''SAMN2'', ''European''), (''SAMN3'', ''African'')]"
proof (intro conjI impI)
  assume a: "meta_status_code meta_r = 200 \<and> meta_json meta_r = m # rest"
  let ?ns = "tree_nodes (populations m)"
  let ?result = "fold (\<lambda>(k, v). AList.update k v) ?ns []"
  have r: "build_pop_map meta_r = Inr ?result"
    using a by (simp add: build_pop_map_def read_pops_fold)
  have d: "distinct (map fst ?result)"
    by (rule distinct_fold_update) simp
  have k: "fst ` set ?result = fst ` set ?ns"
    by (simp add: keys_fold_update)
  have l: "map_of ?result bid = map_of (rev ?ns) bid" for bid
    by (simp add: map_of_fold_update_id split: option.splits)
  have o: "map_of ?result bid = Some nm"
    if "?ns = before @ (bid, nm) # after \<and> bid \<notin> fst ` set after" for before bid nm after
  proof -
    from that have none: "map_of (rev after) bid = None"
      by (simp add: map_of_eq_None_iff)
    from that have eq: "rev ?ns = rev after @ (bid, nm) # rev before" by simp
    have "map_of (rev ?ns) bid = Some nm"
      unfolding eq using none by (simp add: map_add_def)
    then show ?thesis by (simp only: l)
  qed
  from r d k l o show "\<exists>result. build_pop_map meta_r = Inr result \<and>
         distinct (map fst result) \<and>
         fst ` set result = fst ` set (tree_nodes (populations m)) \<and>
         (\<forall>bid. map_of result bid = map_of (rev (tree_nodes (populations m))) bid) \<and>
         (\<forall>before bid nm after.
            tree_nodes (populations m) = before @ (bid, nm) # after \<and> bid \<notin> fst ` set after
            \<longrightarrow> map_of result bid = Some nm)"
    by blast
next
  show "build_pop_map \<lparr>meta_status_code = 200, meta_json = [\<lparr>populations =
          [Population ''SAMN1'' ''Total'' (Some
             [Population ''SAMN2'' ''European'' None,
              Population ''SAMN3'' ''African'' None])]\<rparr>]\<rparr>
      = Inr [(''SAMN1'', ''Total''), (''SAMN2'', ''European''), (''SAMN3'', ''African'')]"
    by (simp add: build_pop_map_def)
qed

theorem build_pop_map_all_nodes_witness:
  "meta_status_code \<lparr>meta_status_code = 200, meta_json = [\<lparr>populations =
          [Population ''SAMN1'' ''Total'' (Some
             [Population ''SAMN2'' ''European'' None,
              Population ''SAMN2'' ''African'' None])]\<rparr>]\<rparr> = 200
   \<and> tree_nodes [Population ''SAMN1'' ''Total'' (Some
             [Population ''SAMN2'' ''European'' None,
              Population ''SAMN2'' ''African'' None])]
      = [(''SAMN1'', ''Total''), (''SAMN2'', ''European'')] @ (''SAMN2'', ''African'') # []
   \<and> ''SAMN2'' \<notin> fst ` set ([] :: (string \<times> string) list)
   \<and> (\<exists>result. build_pop_map \<lparr>meta_status_code = 200, meta_json = [\<lparr>populations =
          [Population ''SAMN1'' ''Total'' (Some
             [Population ''SAMN2'' ''European'' None,
              Population ''SAMN2'' ''African'' None])]\<rparr>]\<rparr> = Inr result
        \<and> map_of result ''SAMN1'' = Some ''Total''
        \<and> map_of result ''SAMN2'' = Some ''African''
        \<and> fst ` set result = {''SAMN1'', ''SAMN2''})"
proof -
  let ?m = "\<lparr>populations =
          [Population ''SAMN1'' ''Total'' (Some
             [Population ''SAMN2'' ''European'' None,
              Population ''SAMN2'' ''African'' None])]\<rparr>"
  let ?r = "\<lparr>meta_status_code = 200, meta_json = [?m]\<rparr>"
  have s: "meta_status_code ?r = 200 \<and> meta_json ?r = ?m # []" by simp
  have n: "tree_nodes (populations ?m)
      = [(''SAMN1'', ''Total''), (''SAMN2'', ''European'')] @ (''SAMN2'', ''African'') # []"
    by simp
  have n1: "tree_nodes (populations ?m)
      = [] @ (''SAMN1'', ''Total'') # [(''SAMN2'', ''European''), (''SAMN2'', ''African'')]"
    by simp
  from build_pop_map_all_nodes [of ?r ?m "[]"] s obtain result where
    r: "build_pop_map ?r = Inr result"
    and k: "fst ` set result = fst ` set (tree_nodes (populations ?m))"
    and o: "\<forall>before bid nm after.
            tree_nodes (populations ?m) = before @ (bid, nm) # after \<and> bid \<notin> fst ` set after
            \<longrightarrow> map_of result bid = Some nm"
    by blast
  have "map_of result ''SAMN2'' = Some ''African''"
    using o [rule_format, of "[(''SAMN1'', ''Total''), (''SAMN2'', ''European'')]"
        "''SAMN2''" "''African''" "[]"] n by simp
  moreover have "map_of result ''SAMN1'' = Some ''Total''"
    using o [rule_format, of "[]" "''SAMN1''" "''Total''"
        "[(''SAMN2'', ''European''), (''SAMN2'', ''African'')]"] n1 by simp
  moreover from k have "fst ` set result = {''SAMN1'', ''SAMN2''}"
    by simp
  ultimately show ?thesis using r n by simp
qed


section \<open>Properties of \<^verbatim>\<open>download\<close>\<close>

lemma fold_max_Max: "fold max ps (start :: int) = Max (insert start (set ps))"
  using Max.set_eq_fold [of start ps] by simp

lemma advance_well_formed:
  "keys_well_formed result \<Longrightarrow>
     advance start result = Inr (Max (insert start (set (key_positions result))))"
proof -
  have "keys_well_formed result \<Longrightarrow>
     advance start result = Inr (fold max (key_positions result) start)"
    by (induction result arbitrary: start)
       (auto simp: keys_well_formed_def key_positions_def map_filter_simps max.commute)
  then show "keys_well_formed result \<Longrightarrow> ?thesis" by (simp add: fold_max_Max)
qed

lemma dict_update_concat:
  "dict_update (dict_update d p) q = dict_update d (p @ q)"
  by (simp add: dict_update_def)

lemma map_of_dict_update:
  "map_of (dict_update d p) k = (case map_of (rev p) k of None \<Rightarrow> map_of d k | Some v \<Rightarrow> Some v)"
  by (simp add: dict_update_def map_of_fold_update_id)

lemma map_of_dict_update_empty: "map_of (dict_update [] p) k = map_of (rev p) k"
  by (simp add: map_of_dict_update split: option.splits)

lemma distinct_dict_update:
  "distinct (map fst d) \<Longrightarrow> distinct (map fst (dict_update d p))"
  by (simp add: dict_update_def distinct_fold_update)

lemma keys_dict_update: "fst ` set (dict_update d p) = fst ` set d \<union> fst ` set p"
  by (simp add: dict_update_def keys_fold_update)

lemma download_iter_failure:
  assumes "get (dl_server st) (interval_request seq_id (dl_start st) stop) = (resp, srv)"
    and "status_code resp div 100 \<noteq> 2"
  shows "download_iter get seq_id stop st =
           Exit (Inl (DownloadError (status_code resp) (content resp)),
                 dl_requests st @ [interval_request seq_id (dl_start st) stop])"
  using assms by (simp add: download_iter_def)

lemma download_iter_complete:
  assumes "get (dl_server st) (interval_request seq_id (dl_start st) stop) = (resp, srv)"
    and "status_code resp = 200"
    and "json resp = Results result"
  shows "download_iter get seq_id stop st =
           Exit (Inr (dict_update (dl_data st) result),
                 dl_requests st @ [interval_request seq_id (dl_start st) stop])"
  using assms by (simp add: download_iter_def)

lemma download_iter_partial:
  assumes "get (dl_server st) (interval_request seq_id (dl_start st) stop) = (resp, srv)"
    and "status_code resp div 100 = 2" "status_code resp \<noteq> 200"
    and "json resp = Results result"
    and "keys_well_formed result"
  shows "download_iter get seq_id stop st =
           Continue \<lparr>dl_server = srv,
                     dl_start = Max (insert (dl_start st) (set (key_positions result))),
                     dl_data = dict_update (dl_data st) result,
                     dl_requests = dl_requests st @ [interval_request seq_id (dl_start st) stop]\<rparr>"
  using assms by (simp add: download_iter_def advance_well_formed)

lemma download_loop_exit:
  "download_iter get seq_id stop st = Exit r \<Longrightarrow> download_loop get seq_id stop st = Some r"
  by (subst download_loop.simps) simp

lemma download_loop_continue:
  "download_iter get seq_id stop st = Continue st' \<Longrightarrow>
     download_loop get seq_id stop st = download_loop get seq_id stop st'"
  by (subst download_loop.simps) simp

lemma download_loop_passes:
  assumes "download_loop get seq_id stop st = Some r"
  shows "\<exists>n. download_passes get seq_id stop n st = Exit r"
  using assms
proof (induction rule: download_loop.raw_induct [rotated 1, consumes 1])
  case (1 loop get seq_id stop st r)
  show ?case
  proof (cases "download_iter get seq_id stop st")
    case (Exit r')
    with 1(2) have "download_passes get seq_id stop (Suc 0) st = Exit r" by simp
    then show ?thesis by blast
  next
    case (Continue st')
    with 1(2) have "loop get seq_id stop st' = Some r" by simp
    from 1(1) [OF this] obtain n where "download_passes get seq_id stop n st' = Exit r" by blast
    with Continue have "download_passes get seq_id stop (Suc n) st = Exit r" by simp
    then show ?thesis by blast
  qed
qed

lemma download_loop_never:
  assumes "\<forall>n. \<exists>st'. download_passes get seq_id stop n st = Continue st'"
  shows "download_loop get seq_id stop st = None"
proof (cases "download_loop get seq_id stop st")
  case None
  then show ?thesis .
next
  case (Some r)
  from download_loop_passes [OF this] obtain n where
    "download_passes get seq_id stop n st = Exit r" by blast
  with assms show ?thesis by (metis dl_iter.distinct(1))
qed


lemma is_page_results: "is_page resp \<Longrightarrow> json resp = Results (page_results resp)"
  by (simp add: is_page_def page_results_def split: json_body.splits)

lemma replay_at:
  "replay (before @ r # after) fallback (length before) req = (r, Suc (length before))"
  by (simp add: replay_def)

lemma download_loop_replay:
  assumes "\<forall>r \<in> set partial. status_code r = 206 \<and> is_page r \<and> keys_well_formed (page_results r)"
    and "status_code final = 200" "is_page final"
    and "dl_server st = length before"
  shows "\<exists>reqs. download_loop (replay (before @ partial @ [final]) fallback) seq_id stop st =
            Some (Inr (dict_update (dl_data st) (concat (map page_results (partial @ [final])))),
                  dl_requests st @ reqs) \<and>
           length reqs = length partial + 1"
  using assms(1,4)
proof (induction partial arbitrary: st before)
  case Nil
  let ?req = "interval_request seq_id (dl_start st) stop"
  have "replay (before @ [] @ [final]) fallback (dl_server st) ?req = (final, Suc (length before))"
    using replay_at [of before final "[]"] Nil by simp
  from download_iter_complete
    [where get = "replay (before @ [] @ [final]) fallback" and st = st and seq_id = seq_id
       and stop = stop, OF this assms(2) is_page_results [OF assms(3)]]
  have "download_loop (replay (before @ [] @ [final]) fallback) seq_id stop st =
      Some (Inr (dict_update (dl_data st) (page_results final)), dl_requests st @ [?req])"
    by (rule download_loop_exit)
  then show ?case by simp
next
  case (Cons r partial)
  let ?req = "interval_request seq_id (dl_start st) stop"
  let ?get = "replay (before @ (r # partial) @ [final]) fallback"
  let ?st = "\<lparr>dl_server = Suc (length before),
              dl_start = Max (insert (dl_start st) (set (key_positions (page_results r)))),
              dl_data = dict_update (dl_data st) (page_results r),
              dl_requests = dl_requests st @ [?req]\<rparr>"
  from Cons.prems have r: "status_code r = 206" "is_page r" "keys_well_formed (page_results r)"
    and rest: "\<forall>r \<in> set partial.
        status_code r = 206 \<and> is_page r \<and> keys_well_formed (page_results r)"
    by auto
  have get: "?get (dl_server st) ?req = (r, Suc (length before))"
    using replay_at [of before r "partial @ [final]"] Cons.prems(2) by simp
  have "download_iter ?get seq_id stop st = Continue ?st"
    using download_iter_partial
      [where get = ?get and st = st and seq_id = seq_id and stop = stop,
       OF get _ _ is_page_results [OF r(2)] r(3)] r(1) by simp
  then have step: "download_loop ?get seq_id stop st = download_loop ?get seq_id stop ?st"
    by (rule download_loop_continue)
  have "dl_server ?st = length (before @ [r])" by simp
  from Cons.IH [OF rest this] obtain reqs where
    "download_loop (replay ((before @ [r]) @ partial @ [final]) fallback) seq_id stop ?st =
       Some (Inr (dict_update (dl_data ?st) (concat (map page_results (partial @ [final])))),
             dl_requests ?st @ reqs)"
    and len: "length reqs = length partial + 1"
    by blast
  then have "download_loop ?get seq_id stop st =
       Some (Inr (dict_update (dl_data st) (concat (map page_results ((r # partial) @ [final])))),
             dl_requests st @ (?req # reqs))"
    using step by (simp add: dict_update_concat)
  with len show ?case by (intro exI [of _ "?req # reqs"]) simp
qed


lemma key_position_ex1: "key_position ''rs1@50'' = Some 50"
  by (simp add: key_position_def py_int_def strip_def is_space_def is_digit_def)

lemma py_int_examples:
  "py_int ''50'' = Some 50" "py_int '' +1_000 '' = Some 1000" "py_int ''-7'' = Some (- 7)"
  "py_int ''007'' = Some 7" "py_int ''1__0'' = None" "py_int ''_1'' = None"
  "py_int ''1_'' = None" "py_int [] = None" "py_int ''+'' = None" "py_int ''12a'' = None"
  by (simp_all add: py_int_def strip_def is_space_def is_digit_def)

lemma split_on_examples:
  "split_on CHR ''@'' ''rs1@50'' = [''rs1'', ''50'']" "split_on CHR ''@'' [] = [[]]"
  "split_on CHR ''@'' ''a@@'' = [''a'', [], []]" "key_position ''rs1'' = None"
  "key_position ''a@1@2'' = None"
  by (simp_all add: key_position_def)

lemma key_position_ex2: "key_position ''NC_000019.10:g.44905400A>G@44905400'' = Some 44905400"
  by (simp add: key_position_def py_int_def strip_def is_space_def is_digit_def)

text \<open>
  C1, as the code has it. The test of the loop is \<^verbatim>\<open>status_code // 100 != 2\<close>: a reply whose
  status lies outside 200..299 ends \<^verbatim>\<open>download\<close> at once with the exception that carries the
  status code and the content, and the request of this pass is the last one issued.
  A status in 200..299 other than 200 is handled like 206.
\<close>

theorem download_fails_outside_2xx:
  assumes "get (dl_server st) (interval_request seq_id (dl_start st) stop) = (resp, srv)"
    and "status_code resp < 200 \<or> 299 < status_code resp"
  shows "download_loop get seq_id stop st =
           Some (Inl (DownloadError (status_code resp) (content resp)),
                 dl_requests st @ [interval_request seq_id (dl_start st) stop])"
proof -
  from assms(2) have "status_code resp div 100 \<noteq> 2" by presburger
  from download_iter_failure [where get = get, OF assms(1) this] show ?thesis
    by (rule download_loop_exit)
qed

theorem download_fails_outside_2xx_witness:
  "always \<lparr>status_code = 404, content = ''Not Found'', json = (NotJSON :: unit json_body)\<rparr>
       (dl_server \<lparr>dl_server = (), dl_start = 44905384, dl_data = [], dl_requests = []\<rparr>)
       (interval_request ''NC_000019.10''
          (dl_start \<lparr>dl_server = (), dl_start = 44905384, dl_data = [], dl_requests = []\<rparr>)
          44909760)
     = (\<lparr>status_code = 404, content = ''Not Found'', json = (NotJSON :: unit json_body)\<rparr>, ())
   \<and> (status_code \<lparr>status_code = 404, content = ''Not Found'', json = (NotJSON :: unit json_body)\<rparr> < 200
      \<or> 299 < status_code \<lparr>status_code = 404, content = ''Not Found'', json = (NotJSON :: unit json_body)\<rparr>)
   \<and> download (always \<lparr>status_code = 404, content = ''Not Found'', json = (NotJSON :: unit json_body)\<rparr>) ()
        ''NC_000019.10'' 44905384 44909760
     = Some (Inl (DownloadError 404 ''Not Found''),
             [\<lparr>req_seq_id = ''NC_000019.10'', req_start = 44905384, req_length = 4377\<rparr>])"
proof -
  let ?r = "\<lparr>status_code = 404, content = ''Not Found'', json = NotJSON :: unit json_body\<rparr>"
  let ?st = "\<lparr>dl_server = (), dl_start = 44905384, dl_data = [] :: (string, unit) dict,
             dl_requests = []\<rparr>"
  have g: "always ?r (dl_server ?st) (interval_request ''NC_000019.10'' (dl_start ?st) 44909760)
     = (?r, ())"
    by (simp add: always_def)
  have s: "status_code ?r < 200 \<or> 299 < status_code ?r" by simp
  from download_fails_outside_2xx [where get = "always ?r", OF g s] g s show ?thesis
    by (simp add: download_def interval_request_def)
qed

text \<open>
  A reply with status 203 is neither 200 nor 206, and it is not fatal: the loop merges
  its page, moves \<^verbatim>\<open>start\<close>, issues a second request and returns the merged data.
\<close>

theorem download_status_203_not_fatal:
  "download
     (replay [\<lparr>status_code = 203, content = [], json = Results [(''rs1@50'', ())]\<rparr>,
              \<lparr>status_code = 200, content = [], json = Results [(''rs2@60'', ())]\<rparr>]
             \<lparr>status_code = 500, content = [], json = NotJSON\<rparr>)
     0 ''NC_000019.10'' 10 100
   = Some (Inr [(''rs1@50'', ()), (''rs2@60'', ())],
           [\<lparr>req_seq_id = ''NC_000019.10'', req_start = 10, req_length = 91\<rparr>,
            \<lparr>req_seq_id = ''NC_000019.10'', req_start = 50, req_length = 51\<rparr>])"
  unfolding download_def
  apply (subst download_loop.simps)
  apply (simp add: download_iter_def replay_def interval_request_def dict_update_def
      key_position_ex1)
  apply (subst download_loop.simps)
  apply (simp add: download_iter_def replay_def interval_request_def dict_update_def)
  done


lemma download_passes_stuck:
  assumes "\<forall>srv. fst (get srv (interval_request seq_id start stop)) = resp"
    and "status_code resp div 100 = 2" "status_code resp \<noteq> 200"
    and "json resp = Results []"
  shows "\<exists>srv'. download_passes get seq_id stop n
            \<lparr>dl_server = srv, dl_start = start, dl_data = data, dl_requests = reqs\<rparr> =
          Continue \<lparr>dl_server = srv', dl_start = start, dl_data = data,
                    dl_requests = reqs @ replicate n (interval_request seq_id start stop)\<rparr>"
proof (induction n arbitrary: srv reqs)
  case 0
  show ?case by simp
next
  case (Suc n)
  let ?req = "interval_request seq_id start stop"
  let ?st = "\<lparr>dl_server = srv, dl_start = start, dl_data = data, dl_requests = reqs\<rparr>"
  obtain srv1 where g: "get (dl_server ?st) (interval_request seq_id (dl_start ?st) stop) = (resp, srv1)"
    using assms(1) by (cases "get srv ?req") (auto dest: spec [of _ srv])
  have "keys_well_formed ([] :: (string, 'b) dict)" by (simp add: keys_well_formed_def)
  from download_iter_partial [where get = get, OF g assms(2,3,4) this]
  have it: "download_iter get seq_id stop ?st =
      Continue \<lparr>dl_server = srv1, dl_start = start, dl_data = data, dl_requests = reqs @ [?req]\<rparr>"
    by (simp add: key_positions_def map_filter_simps dict_update_def)
  from Suc [of srv1 "reqs @ [?req]"] obtain srv' where
    "download_passes get seq_id stop n
        \<lparr>dl_server = srv1, dl_start = start, dl_data = data, dl_requests = reqs @ [?req]\<rparr> =
      Continue \<lparr>dl_server = srv', dl_start = start, dl_data = data,
                dl_requests = (reqs @ [?req]) @ replicate n ?req\<rparr>"
    by blast
  with it show ?case by (simp add: replicate_append_same)
qed

text \<open>
  C3, as the code has it. After a partial (206) reply whose keys all have the form
  \<^verbatim>\<open>prefix@integer\<close>, the loop goes on, and \<^verbatim>\<open>start\<close> for the next request is the larger of the
  current \<^verbatim>\<open>start\<close> and the largest position among the keys just received; it is that
  largest position when the page is not empty and the position is not below \<^verbatim>\<open>start\<close>.
\<close>

theorem download_partial_advances_start:
  assumes "get (dl_server st) (interval_request seq_id (dl_start st) stop) = (resp, srv)"
    and "status_code resp = 206"
    and "json resp = Results result"
    and "keys_well_formed result"
  shows "\<exists>st'. download_iter get seq_id stop st = Continue st' \<and>
           dl_start st' = Max (insert (dl_start st) (set (key_positions result))) \<and>
           (result \<noteq> [] \<and> dl_start st \<le> Max (set (key_positions result))
              \<longrightarrow> dl_start st' = Max (set (key_positions result)))"
proof -
  from assms(2) have s: "status_code resp div 100 = 2" "status_code resp \<noteq> 200" by simp_all
  note it = download_iter_partial [where get = get, OF assms(1) s assms(3,4)]
  have "Max (insert (dl_start st) (set (key_positions result))) = Max (set (key_positions result))"
    if "result \<noteq> []" "dl_start st \<le> Max (set (key_positions result))"
  proof -
    from that(1) assms(4) have "key_positions result \<noteq> []"
      by (cases result) (auto simp: keys_well_formed_def key_positions_def map_filter_simps)
    with that(2) show ?thesis by (simp add: max_def)
  qed
  with it show ?thesis by simp
qed

theorem download_partial_advances_start_witness:
  "always \<lparr>status_code = 206, content = [], json = Results [(''rs1@50'', ()), (''rs2@70'', ())]\<rparr>
       (dl_server \<lparr>dl_server = (), dl_start = 10, dl_data = [] :: (string, unit) dict, dl_requests = []\<rparr>)
       (interval_request ''NC_000019.10''
          (dl_start \<lparr>dl_server = (), dl_start = 10, dl_data = [] :: (string, unit) dict, dl_requests = []\<rparr>) 100)
     = (\<lparr>status_code = 206, content = [], json = Results [(''rs1@50'', ()), (''rs2@70'', ())]\<rparr>, ())
   \<and> status_code
       \<lparr>status_code = 206, content = [], json = Results [(''rs1@50'', ()), (''rs2@70'', ())]\<rparr> = 206
   \<and> keys_well_formed [(''rs1@50'', ()), (''rs2@70'', ())]
   \<and> [(''rs1@50'', ()), (''rs2@70'', ())] \<noteq> []
   \<and> dl_start \<lparr>dl_server = (), dl_start = 10, dl_data = [] :: (string, unit) dict, dl_requests = []\<rparr>
       \<le> Max (set (key_positions [(''rs1@50'', ()), (''rs2@70'', ())]))
   \<and> (\<exists>st'. download_iter
          (always \<lparr>status_code = 206, content = [],
                   json = Results [(''rs1@50'', ()), (''rs2@70'', ())]\<rparr>)
          ''NC_000019.10'' 100
          \<lparr>dl_server = (), dl_start = 10, dl_data = [] :: (string, unit) dict, dl_requests = []\<rparr> = Continue st'
        \<and> dl_start st' = 70)"
proof -
  let ?p = "[(''rs1@50'', ()), (''rs2@70'', ())]"
  let ?r = "\<lparr>status_code = 206, content = [], json = Results ?p\<rparr>"
  let ?st = "\<lparr>dl_server = (), dl_start = 10, dl_data = [] :: (string, unit) dict, dl_requests = []\<rparr>"
  have k2: "key_position ''rs2@70'' = Some 70"
    by (simp add: key_position_def py_int_def strip_def is_space_def is_digit_def)
  have g: "always ?r (dl_server ?st) (interval_request ''NC_000019.10'' (dl_start ?st) 100) = (?r, ())"
    by (simp add: always_def)
  have s: "status_code ?r = 206" by simp
  have j: "json ?r = Results ?p" by simp
  have w: "keys_well_formed ?p" by (simp add: keys_well_formed_def key_position_ex1 k2)
  have p: "key_positions ?p = [50, 70]"
    by (simp add: key_positions_def map_filter_simps key_position_ex1 k2)
  have n: "?p \<noteq> []" by simp
  have m: "dl_start ?st \<le> Max (set (key_positions ?p))" by (simp add: p)
  from download_partial_advances_start [where get = "always ?r", OF g s j w] n m
  obtain st' where "download_iter (always ?r) ''NC_000019.10'' 100 ?st = Continue st'"
    "dl_start st' = Max (set (key_positions ?p))" by blast
  then have "\<exists>st'. download_iter (always ?r) ''NC_000019.10'' 100 ?st = Continue st' \<and>
      dl_start st' = 70" by (simp add: p)
  with g s w n m show ?thesis by blast
qed

text \<open>
  With \<^verbatim>\<open>start\<close> at 100 and a partial page whose only key is at position 50, the next
  request starts at 100 again, not at the largest position of the page.
\<close>

theorem download_start_never_decreases:
  "download_iter
     (always \<lparr>status_code = 206, content = [], json = Results [(''rs1@50'', ())]\<rparr>)
     ''NC_000019.10'' 200
     \<lparr>dl_server = (), dl_start = 100, dl_data = [], dl_requests = []\<rparr>
   = Continue \<lparr>dl_server = (), dl_start = 100, dl_data = [(''rs1@50'', ())],
               dl_requests = [\<lparr>req_seq_id = ''NC_000019.10'', req_start = 100, req_length = 101\<rparr>]\<rparr>
   \<and> Max (set (key_positions [(''rs1@50'', ())])) = 50"
  by (simp add: download_iter_def always_def interval_request_def dict_update_def
      key_position_ex1 key_positions_def map_filter_simps)

text \<open>
  C10. A partial (206) reply with an empty \<^verbatim>\<open>results\<close> dictionary leaves \<^verbatim>\<open>start\<close> and the data as
  they are, so the next request is the one just made. If the service gives that reply to
  that request whatever its state, then after any number of passes the loop is still
  running and all its requests were that one request, and \<^verbatim>\<open>download\<close> never returns.
\<close>

theorem download_repeats_on_empty_partial:
  "(\<forall>st srv. get (dl_server st) (interval_request seq_id (dl_start st) stop) = (resp, srv) \<and>
        status_code resp = 206 \<and> json resp = Results []
      \<longrightarrow> download_iter get seq_id stop st =
            Continue \<lparr>dl_server = srv, dl_start = dl_start st, dl_data = dl_data st,
                      dl_requests = dl_requests st @ [interval_request seq_id (dl_start st) stop]\<rparr>)
   \<and> ((\<forall>srv. fst (get srv (interval_request seq_id start stop)) = resp) \<and>
        status_code resp = 206 \<and> json resp = Results []
      \<longrightarrow> (\<forall>n. \<exists>srv. download_passes get seq_id stop n
                  \<lparr>dl_server = srv0, dl_start = start, dl_data = [], dl_requests = []\<rparr> =
                Continue \<lparr>dl_server = srv, dl_start = start, dl_data = [],
                          dl_requests = replicate n (interval_request seq_id start stop)\<rparr>)
          \<and> download get srv0 seq_id start stop = None)"
proof (intro conjI allI impI)
  fix st :: "('a, 'b) dl_state" and srv
  assume a: "get (dl_server st) (interval_request seq_id (dl_start st) stop) = (resp, srv) \<and>
        status_code resp = 206 \<and> json resp = Results []"
  then have s: "status_code resp div 100 = 2" "status_code resp \<noteq> 200" by simp_all
  have "keys_well_formed ([] :: (string, 'b) dict)" by (simp add: keys_well_formed_def)
  from download_iter_partial [where get = get and st = st, OF _ s _ this] a
  show "download_iter get seq_id stop st =
            Continue \<lparr>dl_server = srv, dl_start = dl_start st, dl_data = dl_data st,
                      dl_requests = dl_requests st @ [interval_request seq_id (dl_start st) stop]\<rparr>"
    by (simp add: key_positions_def map_filter_simps dict_update_def)
next
  fix n
  assume a: "(\<forall>srv. fst (get srv (interval_request seq_id start stop)) = resp) \<and>
        status_code resp = 206 \<and> json resp = Results []"
  then have s: "status_code resp div 100 = 2" "status_code resp \<noteq> 200" by simp_all
  from download_passes_stuck [where get = get and reqs = "[]" and data = "[]", OF _ s] a
  show "\<exists>srv. download_passes get seq_id stop n
                  \<lparr>dl_server = srv0, dl_start = start, dl_data = [], dl_requests = []\<rparr> =
                Continue \<lparr>dl_server = srv, dl_start = start, dl_data = [],
                          dl_requests = replicate n (interval_request seq_id start stop)\<rparr>"
    by simp
next
  assume a: "(\<forall>srv. fst (get srv (interval_request seq_id start stop)) = resp) \<and>
        status_code resp = 206 \<and> json resp = Results []"
  then have s: "status_code resp div 100 = 2" "status_code resp \<noteq> 200" by simp_all
  have "\<forall>n. \<exists>st'. download_passes get seq_id stop n
      \<lparr>dl_server = srv0, dl_start = start, dl_data = [], dl_requests = []\<rparr> = Continue st'"
    using download_passes_stuck [where get = get and reqs = "[]" and data = "[]", OF _ s] a
    by blast
  then show "download get srv0 seq_id start stop = None"
    unfolding download_def by (rule download_loop_never)
qed

theorem download_repeats_on_empty_partial_witness:
  "always \<lparr>status_code = 206, content = [], json = (Results [] :: unit json_body)\<rparr>
       (dl_server \<lparr>dl_server = (), dl_start = 10, dl_data = [] :: (string, unit) dict,
                  dl_requests = []\<rparr>)
       (interval_request ''NC_000019.10''
          (dl_start \<lparr>dl_server = (), dl_start = 10, dl_data = [] :: (string, unit) dict,
                     dl_requests = []\<rparr>) 100)
     = (\<lparr>status_code = 206, content = [], json = Results []\<rparr>, ())
   \<and> (\<forall>srv. fst (always \<lparr>status_code = 206, content = [], json = (Results [] :: unit json_body)\<rparr>
                    srv (interval_request ''NC_000019.10'' 10 100))
        = \<lparr>status_code = 206, content = [], json = Results []\<rparr>)
   \<and> download_iter (always \<lparr>status_code = 206, content = [], json = (Results [] :: unit json_body)\<rparr>)
        ''NC_000019.10'' 100
        \<lparr>dl_server = (), dl_start = 10, dl_data = [], dl_requests = []\<rparr>
     = Continue \<lparr>dl_server = (), dl_start = 10, dl_data = [],
         dl_requests = [\<lparr>req_seq_id = ''NC_000019.10'', req_start = 10, req_length = 91\<rparr>]\<rparr>
   \<and> download (always \<lparr>status_code = 206, content = [], json = (Results [] :: unit json_body)\<rparr>)
        () ''NC_000019.10'' 10 100 = None"
proof -
  let ?r = "\<lparr>status_code = 206, content = [], json = (Results [] :: unit json_body)\<rparr>"
  let ?st = "\<lparr>dl_server = (), dl_start = 10, dl_data = [] :: (string, unit) dict,
             dl_requests = []\<rparr>"
  have g: "always ?r (dl_server ?st) (interval_request ''NC_000019.10'' (dl_start ?st) 100) = (?r, ())"
    by (simp add: always_def)
  have f: "\<forall>srv. fst (always ?r srv (interval_request ''NC_000019.10'' 10 100)) = ?r"
    by (simp add: always_def)
  note inst = download_repeats_on_empty_partial
    [of "always ?r" "''NC_000019.10''" 100 ?r 10 "()"]
  from inst g have "download_iter (always ?r) ''NC_000019.10'' 100 ?st =
      Continue \<lparr>dl_server = (), dl_start = dl_start ?st, dl_data = dl_data ?st,
        dl_requests = dl_requests ?st @ [interval_request ''NC_000019.10'' (dl_start ?st) 100]\<rparr>"
    by simp
  moreover from inst f have "download (always ?r) () ''NC_000019.10'' 10 100 = None"
    by simp
  ultimately show ?thesis using g f by (simp add: interval_request_def)
qed


text \<open>
  C2. Let the service answer with a list of partial (206) pages, whose keys all have the
  form \<^verbatim>\<open>prefix@integer\<close>, followed by a complete (200) page. Then \<^verbatim>\<open>download\<close> returns, after
  exactly one request per page, a dictionary with pairwise distinct keys whose keys are
  the keys of all pages and in which a key has the value of its last occurrence over the
  pages in order. The witness has two partial pages and a complete one: three requests.
\<close>

theorem download_paginates:
  assumes "\<forall>r \<in> set partial.
             status_code r = 206 \<and> is_page r \<and> keys_well_formed (page_results r)"
    and "status_code final = 200 \<and> is_page final"
  shows "\<exists>data reqs.
           download (replay (partial @ [final]) fallback) 0 seq_id start stop
             = Some (Inr data, reqs) \<and>
           length reqs = length partial + 1 \<and>
           distinct (map fst data) \<and>
           fst ` set data = (\<Union>r \<in> set (partial @ [final]). fst ` set (page_results r)) \<and>
           (\<forall>k. map_of data k =
                  map_of (rev (concat (map page_results (partial @ [final])))) k)"
proof -
  let ?pages = "concat (map page_results (partial @ [final]))"
  let ?st = "\<lparr>dl_server = 0 :: nat, dl_start = start, dl_data = [] :: (string, 'a) dict,
             dl_requests = []\<rparr>"
  have "dl_server ?st = length ([] :: 'a response list)" by simp
  from download_loop_replay [where before = "[]" and fallback = fallback and seq_id = seq_id
      and stop = stop, OF assms(1) conjunct1 [OF assms(2)] conjunct2 [OF assms(2)] this]
  obtain reqs where
    run: "download (replay (partial @ [final]) fallback) 0 seq_id start stop =
            Some (Inr (dict_update [] ?pages), reqs)"
    and len: "length reqs = length partial + 1"
    by (auto simp: download_def)
  have d: "distinct (map fst (dict_update [] ?pages))"
    by (rule distinct_dict_update) simp
  have k: "fst ` set (dict_update [] ?pages) =
      (\<Union>r \<in> set (partial @ [final]). fst ` set (page_results r))"
    by (auto simp: keys_dict_update)
  have l: "map_of (dict_update [] ?pages) k = map_of (rev ?pages) k" for k
    by (rule map_of_dict_update_empty)
  from run len d k l show ?thesis by blast
qed

theorem download_paginates_witness:
  "status_code \<lparr>status_code = 206, content = [],
                  json = Results [(''rs1@50'', 1 :: nat), (''rs2@70'', 2)]\<rparr> = 206
   \<and> is_page \<lparr>status_code = 206, content = [],
                json = Results [(''rs1@50'', 1 :: nat), (''rs2@70'', 2)]\<rparr>
   \<and> keys_well_formed (page_results \<lparr>status_code = 206, content = [],
                json = Results [(''rs1@50'', 1 :: nat), (''rs2@70'', 2)]\<rparr>)
   \<and> status_code \<lparr>status_code = 206, content = [],
                  json = Results [(''rs2@70'', 2 :: nat), (''rs3@80'', 3)]\<rparr> = 206
   \<and> is_page \<lparr>status_code = 206, content = [],
                json = Results [(''rs2@70'', 2 :: nat), (''rs3@80'', 3)]\<rparr>
   \<and> keys_well_formed (page_results \<lparr>status_code = 206, content = [],
                json = Results [(''rs2@70'', 2 :: nat), (''rs3@80'', 3)]\<rparr>)
   \<and> (status_code \<lparr>status_code = 200, content = [],
                    json = Results [(''rs3@80'', 3 :: nat), (''rs4@90'', 4)]\<rparr> = 200
      \<and> is_page \<lparr>status_code = 200, content = [],
                  json = Results [(''rs3@80'', 3 :: nat), (''rs4@90'', 4)]\<rparr>)
   \<and> (\<exists>data reqs.
        download
          (replay ([\<lparr>status_code = 206, content = [],
                      json = Results [(''rs1@50'', 1 :: nat), (''rs2@70'', 2)]\<rparr>,
                    \<lparr>status_code = 206, content = [],
                      json = Results [(''rs2@70'', 2), (''rs3@80'', 3)]\<rparr>] @
                   [\<lparr>status_code = 200, content = [],
                      json = Results [(''rs3@80'', 3), (''rs4@90'', 4)]\<rparr>])
             \<lparr>status_code = 500, content = [], json = NotJSON\<rparr>)
          0 ''NC_000019.10'' 10 100
          = Some (Inr data, reqs)
        \<and> length reqs = 3 \<and> distinct (map fst data))
   \<and> download
        (replay ([\<lparr>status_code = 206, content = [],
                    json = Results [(''rs1@50'', 1 :: nat), (''rs2@70'', 2)]\<rparr>,
                  \<lparr>status_code = 206, content = [],
                    json = Results [(''rs2@70'', 2), (''rs3@80'', 3)]\<rparr>] @
                 [\<lparr>status_code = 200, content = [],
                    json = Results [(''rs3@80'', 3), (''rs4@90'', 4)]\<rparr>])
           \<lparr>status_code = 500, content = [], json = NotJSON\<rparr>)
        0 ''NC_000019.10'' 10 100
      = Some (Inr [(''rs1@50'', 1), (''rs2@70'', 2), (''rs3@80'', 3), (''rs4@90'', 4)],
              [\<lparr>req_seq_id = ''NC_000019.10'', req_start = 10, req_length = 91\<rparr>,
               \<lparr>req_seq_id = ''NC_000019.10'', req_start = 70, req_length = 31\<rparr>,
               \<lparr>req_seq_id = ''NC_000019.10'', req_start = 80, req_length = 21\<rparr>])"
proof -
  let ?p1 = "\<lparr>status_code = 206, content = [],
              json = Results [(''rs1@50'', 1 :: nat), (''rs2@70'', 2)]\<rparr>"
  let ?p2 = "\<lparr>status_code = 206, content = [],
              json = Results [(''rs2@70'', 2 :: nat), (''rs3@80'', 3)]\<rparr>"
  let ?p3 = "\<lparr>status_code = 200, content = [],
              json = Results [(''rs3@80'', 3 :: nat), (''rs4@90'', 4)]\<rparr>"
  let ?fb = "\<lparr>status_code = 500, content = [], json = (NotJSON :: nat json_body)\<rparr>"
  have k2: "key_position ''rs2@70'' = Some 70"
    by (simp add: key_position_def py_int_def strip_def is_space_def is_digit_def)
  have k3: "key_position ''rs3@80'' = Some 80"
    by (simp add: key_position_def py_int_def strip_def is_space_def is_digit_def)
  have a1: "status_code ?p1 = 206 \<and> is_page ?p1 \<and> keys_well_formed (page_results ?p1)"
    by (simp add: is_page_def page_results_def keys_well_formed_def key_position_ex1 k2)
  have a2: "status_code ?p2 = 206 \<and> is_page ?p2 \<and> keys_well_formed (page_results ?p2)"
    by (simp add: is_page_def page_results_def keys_well_formed_def k2 k3)
  from a1 a2 have a: "\<forall>r \<in> set [?p1, ?p2].
      status_code r = 206 \<and> is_page r \<and> keys_well_formed (page_results r)"
    by simp
  have b: "status_code ?p3 = 200 \<and> is_page ?p3"
    by (simp add: is_page_def)
  from download_paginates [OF a b, of ?fb "''NC_000019.10''" 10 100]
  have c: "\<exists>data reqs.
      download (replay ([?p1, ?p2] @ [?p3]) ?fb) 0 ''NC_000019.10'' 10 100 = Some (Inr data, reqs)
      \<and> length reqs = 3 \<and> distinct (map fst data)"
    by auto
  have e: "download (replay ([?p1, ?p2] @ [?p3]) ?fb) 0 ''NC_000019.10'' 10 100
      = Some (Inr [(''rs1@50'', 1), (''rs2@70'', 2), (''rs3@80'', 3), (''rs4@90'', 4)],
              [\<lparr>req_seq_id = ''NC_000019.10'', req_start = 10, req_length = 91\<rparr>,
               \<lparr>req_seq_id = ''NC_000019.10'', req_start = 70, req_length = 31\<rparr>,
               \<lparr>req_seq_id = ''NC_000019.10'', req_start = 80, req_length = 21\<rparr>])"
    unfolding download_def
    apply (subst download_loop.simps)
    apply (simp add: download_iter_def replay_def interval_request_def dict_update_def
        key_position_ex1 k2 k3)
    apply (subst download_loop.simps)
    apply (simp add: download_iter_def replay_def interval_request_def dict_update_def
        key_position_ex1 k2 k3)
    apply (subst download_loop.simps)
    apply (simp add: download_iter_def replay_def interval_request_def dict_update_def)
    done
  from a1 a2 b c e show ?thesis by blast
qed

end
